theory Spec2Isabelle
  imports Main "HOL-Library.Multiset" "HOL-Library.List_Lexorder" "HOL-Library.Char_ord"
    "HOL-Library.Product_Lexorder" "HOL-Library.Option_ord"
begin

section \<open>The packaging script \<^verbatim>\<open>setup.py\<close>\<close>

text \<open>
  The only source file of the repository is \<^verbatim>\<open>setup.py\<close>. It imports \<^verbatim>\<open>setup\<close>
  (from \<^verbatim>\<open>setuptools\<close>, falling back to \<^verbatim>\<open>distutils.core\<close> on \<^verbatim>\<open>ImportError\<close>),
  reads \<^verbatim>\<open>README.rst\<close> while it evaluates the keyword arguments, and calls
  \<^verbatim>\<open>setup\<close> once. What the script depends on outside itself is made explicit as an
  environment: how each of the two imports ends, and what the file system holds.
\<close>

subsection \<open>Exceptions and the environment\<close>

datatype exn = ImportError | IOError | OtherError

text \<open>How an \<^verbatim>\<open>import\<close> statement ends: the name is bound, or an exception is raised.\<close>

datatype import_outcome = Imported | Raises exn

text \<open>
  What the file system holds under a path. \<^verbatim>\<open>open(path).read()\<close> returns the text of
  a readable file and raises an I/O error otherwise (\<^verbatim>\<open>IOError\<close> in Python 2, its
  subclass \<^verbatim>\<open>FileNotFoundError\<close> for a missing file in Python 3).
\<close>

datatype file_state = Missing | Unreadable | Readable string

record environment =
  setuptools_import :: import_outcome
  distutils_import :: import_outcome
  files :: "string \<Rightarrow> file_state"

text \<open>Which module the name \<^verbatim>\<open>setup\<close> was bound from.\<close>

datatype provider = Setuptools | Distutils

subsection \<open>The keyword arguments of \<^verbatim>\<open>setup\<close>\<close>

record setup_kwargs =
  name :: string
  version :: string
  description :: string
  author :: string
  author_email :: string
  license :: string
  long_description :: string
  scripts :: "string list"
  install_requires :: "string list"
  classifiers :: "string list"

text \<open>
  Lines 9 to 35: every argument is a literal except \<^verbatim>\<open>long_description\<close>, which is
  the text read from \<^verbatim>\<open>README.rst\<close>.
\<close>

definition setup_arguments :: "string \<Rightarrow> setup_kwargs" where
  "setup_arguments readme =
     \<lparr> name = ''elyse'',
       version = ''0.1.0'',
       description = ''A simple static website generator.'',
       author = ''Frank Smit'',
       author_email = ''frank@61924.nl'',
       license = ''MIT'',
       long_description = readme,
       scripts = [''elyse''],
       install_requires =
         [''pyyaml'', ''tornado'', ''houdini.py'', ''misaka'', ''pygments'', ''unidecode''],
       classifiers =
         [''Development Status :: 4 - Beta'',
          ''Intended Audience :: Developers'',
          ''License :: OSI Approved :: MIT License'',
          ''Programming Language :: Python :: 2.7'',
          ''Programming Language :: Python :: 3.2'',
          ''Topic :: Text Processing'',
          ''Topic :: Utilities''] \<rparr>"

subsection \<open>Running the script\<close>

text \<open>
  Lines 3 to 6: \<^verbatim>\<open>try: from setuptools import setup\<close>,
  \<^verbatim>\<open>except ImportError: from distutils.core import setup\<close>. Only an
  \<^verbatim>\<open>ImportError\<close> of the first import is caught; any other exception of the first
  import, and every exception of the second, leaves the script.
\<close>

definition import_setup :: "environment \<Rightarrow> exn + provider" where
  "import_setup env =
     (case setuptools_import env of
        Imported \<Rightarrow> Inr Setuptools
      | Raises e \<Rightarrow>
          if e = ImportError then
            (case distutils_import env of
               Imported \<Rightarrow> Inr Distutils
             | Raises e' \<Rightarrow> Inl e')
          else Inl e)"

text \<open>Line 16: \<^verbatim>\<open>open('README.rst').read()\<close>.\<close>

definition open_read :: "(string \<Rightarrow> file_state) \<Rightarrow> string \<Rightarrow> exn + string" where
  "open_read fs path =
     (case fs path of
        Readable s \<Rightarrow> Inr s
      | Missing \<Rightarrow> Inl IOError
      | Unreadable \<Rightarrow> Inl IOError)"

text \<open>
  A call of \<^verbatim>\<open>setup\<close> registers the package metadata it is given; the state of the
  model is the list of the calls made so far, each with the module that provided
  \<^verbatim>\<open>setup\<close>. The script runs top to bottom: the import, then the arguments of the
  call (among them the read of \<^verbatim>\<open>README.rst\<close>), then the call itself. An exception
  ends the run with the state as it was.
\<close>

type_synonym setup_call = "provider \<times> setup_kwargs"

definition setup_py :: "environment \<Rightarrow> setup_call list \<Rightarrow> exn option \<times> setup_call list" where
  "setup_py env registered =
     (case import_setup env of
        Inl e \<Rightarrow> (Some e, registered)
      | Inr p \<Rightarrow>
          (case open_read (files env) ''README.rst'' of
             Inl e \<Rightarrow> (Some e, registered)
           | Inr readme \<Rightarrow> (None, registered @ [(p, setup_arguments readme)])))"

subsection \<open>Concrete environments\<close>

text \<open>A file system whose only file is \<^verbatim>\<open>README.rst\<close>, with the given text.\<close>

definition readme_only :: "string \<Rightarrow> string \<Rightarrow> file_state" where
  "readme_only text path = (if path = ''README.rst'' then Readable text else Missing)"

text \<open>Both modules installed, the README present.\<close>

definition env_setuptools :: environment where
  "env_setuptools =
     \<lparr> setuptools_import = Imported, distutils_import = Imported,
       files = readme_only ''elyse'' \<rparr>"

text \<open>No \<^verbatim>\<open>setuptools\<close>, but \<^verbatim>\<open>distutils\<close> in the standard library.\<close>

definition env_distutils_only :: environment where
  "env_distutils_only =
     \<lparr> setuptools_import = Raises ImportError, distutils_import = Imported,
       files = readme_only ''elyse'' \<rparr>"

text \<open>Both modules installed, an empty working directory.\<close>

definition env_no_readme :: environment where
  "env_no_readme =
     \<lparr> setuptools_import = Imported, distutils_import = Imported,
       files = (\<lambda>path. Missing) \<rparr>"

text \<open>
  Neither module can be imported (a Python without \<^verbatim>\<open>setuptools\<close> whose standard
  library has no \<^verbatim>\<open>distutils\<close>), and the working directory is empty.
\<close>

definition env_no_setup :: environment where
  "env_no_setup =
     \<lparr> setuptools_import = Raises ImportError, distutils_import = Raises ImportError,
       files = (\<lambda>path. Missing) \<rparr>"

subsection \<open>The roles the specification gives the dependencies\<close>

text \<open>
  The specification names six roles and the claim attaches one package to each. This
  table follows the claim's words, to be compared with the list in the source.
\<close>

datatype role =
  Yaml_parser | Html_escaping | Markdown_renderer | Syntax_highlighter
  | Web_framework | Unicode_transliteration

fun spec_role_package :: "role \<Rightarrow> string" where
  "spec_role_package Yaml_parser = ''pyyaml''"
| "spec_role_package Html_escaping = ''houdini.py''"
| "spec_role_package Markdown_renderer = ''misaka''"
| "spec_role_package Syntax_highlighter = ''pygments''"
| "spec_role_package Web_framework = ''tornado''"
| "spec_role_package Unicode_transliteration = ''unidecode''"

definition spec_roles :: "role list" where
  "spec_roles =
     [Yaml_parser, Html_escaping, Markdown_renderer, Syntax_highlighter,
      Web_framework, Unicode_transliteration]"

section \<open>The build pipeline, modelled from the specification\<close>

text \<open>
  \<^verbatim>\<open>setup.py\<close> installs one script, \<^verbatim>\<open>elyse\<close> (line 17), which is not among the
  source files: the generator itself is missing. Its build pipeline is therefore
  modelled from the specification, sections 3 to 7. The libraries the specification
  treats as black boxes (front-matter parsing, Markdown conversion, templating) are
  parameters of the model, and so is everything the specification leaves open.
\<close>

subsection \<open>Data model\<close>

text \<open>
  Modelled from the spec: the error taxonomy of section 7; the code that raises these
  errors is missing.
\<close>

datatype build_error =
  UnreadableSource | MalformedMetadata | TemplateNotFound | RenderError | WriteError

text \<open>
  Modelled from the spec: the parsed metadata of a Document (section 3: title, date,
  tags, template name, draft flag). The date is a point in time, here an integer.
\<close>

record metadata =
  title :: string
  date :: int
  tags :: "string list"
  template :: "string option"
  draft :: bool

text \<open>
  Modelled from the spec: a Document (section 3): source path, parsed metadata, raw body
  text, derived output path.
\<close>

record document =
  source_path :: string
  meta :: metadata
  body :: string
  output_path :: string

text \<open>
  Modelled from the spec: a RenderedPage (section 3): a Document plus its rendered
  html and the output file path it will be written to.
\<close>

record rendered_page =
  page_document :: document
  html :: string
  page_path :: string

text \<open>
  Modelled from the spec: the two build modes of section 4.5, best-effort (the default)
  and abort on any error.
\<close>

datatype build_mode = BestEffort | AbortOnError

text \<open>
  Modelled from the spec: the global configuration of a Site (section 3: site title,
  base URL, output directory), with the configured default template and the build mode.
  The per-directory template convention of section 4.2 is not described any further;
  it is a parameter, from the source path of a document to the template name the
  convention gives it, if any. The grouping rule of pagination is an open question of
  section 9; it is a parameter too, the number of documents on a page.
\<close>

record site_config =
  site_title :: string
  base_url :: string
  output_directory :: string
  default_template :: string
  directory_template :: "string \<Rightarrow> string option"
  page_size :: nat
  mode :: build_mode

text \<open>
  Modelled from the spec: one link of the next/previous chain (sections 4.4 and 8): a
  document with its predecessor and its successor in the chronological order.
\<close>

type_synonym chain_link = "document option \<times> document \<times> document option"

text \<open>
  Modelled from the spec: the Site that SiteModel assembles (sections 3 and 4.4): the
  configuration, the documents in chronological order, the tag index, the pagination
  groups and the next/previous chain.
\<close>

record site =
  configuration :: site_config
  chronological :: "document list"
  tag_index :: "string \<Rightarrow> document list"
  pagination :: "document list list"
  next_previous :: "chain_link list"

text \<open>
  Modelled from the spec: what reading one source file gives (section 4.1): an I/O
  failure or its text. A source tree is the list of its content files, each with its
  path, in discovery order.
\<close>

datatype source_file = Io_failure | Source_text string

type_synonym source_tree = "(string \<times> source_file) list"

text \<open>
  Modelled from the spec: the collaborators outside the pipeline (sections 4.1, 4.3,
  4.5). \<open>parse_front_matter\<close> splits and parses the metadata block of a file, with the
  defaults applied, and gives \<open>None\<close> when the block is present but cannot be parsed
  (the syntax is an open question of section 9); \<open>derive_output_path\<close> derives the
  output path; \<open>markdown_to_html\<close> is the conversion of the body, \<open>None\<close> when the
  underlying conversion fails; \<open>apply_template\<close> applies a template to the rendered
  body and the site-wide context; \<open>writable\<close> tells whether the output directory
  accepts a file under a path.
\<close>

record externals =
  parse_front_matter :: "string \<Rightarrow> string \<Rightarrow> (metadata \<times> string) option"
  derive_output_path :: "string \<Rightarrow> metadata \<Rightarrow> string"
  markdown_to_html :: "string \<Rightarrow> string option"
  apply_template :: "string \<Rightarrow> site \<Rightarrow> document \<Rightarrow> string \<Rightarrow> string"
  writable :: "string \<Rightarrow> bool"

text \<open>An entry of the error summary: the source path of the document and the error.\<close>

type_synonym error_entry = "string \<times> build_error"

subsection \<open>ContentLoader\<close>

text \<open>
  Modelled from the spec: ContentLoader on one file (section 4.1). It fails with
  \<open>UnreadableSource\<close> on an I/O failure and with \<open>MalformedMetadata\<close> when the
  metadata block is present but not parseable; otherwise it creates the Document.
\<close>

definition load_document :: "externals \<Rightarrow> string \<times> source_file \<Rightarrow> build_error + document" where
  "load_document X f =
     (case snd f of
        Io_failure \<Rightarrow> Inl UnreadableSource
      | Source_text text \<Rightarrow>
          (case parse_front_matter X (fst f) text of
             None \<Rightarrow> Inl MalformedMetadata
           | Some (m, b) \<Rightarrow>
               Inr \<lparr> source_path = fst f, meta = m, body = b,
                     output_path = derive_output_path X (fst f) m \<rparr>))"

subsection \<open>TemplateResolver\<close>

text \<open>
  Modelled from the spec: the resolution order of section 4.2: the explicit
  per-document template reference, else the per-directory convention, else the
  site-wide default.
\<close>

definition template_candidates :: "site_config \<Rightarrow> document \<Rightarrow> string list" where
  "template_candidates cfg d =
     (case template (meta d) of None \<Rightarrow> [] | Some t \<Rightarrow> [t])
     @ (case directory_template cfg (source_path d) of None \<Rightarrow> [] | Some t \<Rightarrow> [t])
     @ [default_template cfg]"

text \<open>
  Modelled from the spec: TemplateResolver (section 4.2). \<open>templates\<close> lists the
  names of the templates that exist. The first candidate that exists is the result;
  the resolver fails with \<open>TemplateNotFound\<close> if none of them resolves to an existing
  template.
\<close>

definition resolve_template :: "site_config \<Rightarrow> string list \<Rightarrow> document \<Rightarrow> build_error + string" where
  "resolve_template cfg templates d =
     (case find (\<lambda>t. t \<in> set templates) (template_candidates cfg d) of
        None \<Rightarrow> Inl TemplateNotFound
      | Some t \<Rightarrow> Inr t)"

subsection \<open>SiteModel\<close>

text \<open>
  Modelled from the spec: the next/previous chain over an ordered sequence of
  documents (sections 4.4, 8 and 9): each document with its neighbours.
\<close>

definition link_chain :: "document list \<Rightarrow> chain_link list" where
  "link_chain ds = zip (None # map Some ds) (zip ds (map Some (tl ds) @ [None]))"

text \<open>
  Modelled from the spec: the pagination groups of section 4.4: the ordered documents
  in groups of the configured size, the last group holding what is left. A size of 0
  stands for no pagination: one group with every document.
\<close>

function paginate :: "nat \<Rightarrow> 'a list \<Rightarrow> 'a list list" where
  "paginate n xs =
     (if xs = [] then []
      else if n = 0 then [xs]
      else take n xs # paginate n (drop n xs))"
  by pat_completeness auto
termination
  by (relation "measure (\<lambda>(n, xs). length xs)") auto

declare paginate.simps [simp del]

text \<open>
  Modelled from the spec: what the chronological ordering sorts on. The derived
  structures have to be pure functions of the set of Documents (sections 4.4, 8 and
  9), so the order must not depend on the order of discovery: the date comes first,
  documents of one date are ordered by their source path, and the remaining fields
  come last, so that the key tells any two different documents apart.
\<close>

definition document_key ::
  "document \<Rightarrow> int \<times> string \<times> string \<times> string \<times> string \<times> string list \<times> string option \<times> bool" where
  "document_key d =
     (date (meta d), source_path d, output_path d, body d, title (meta d), tags (meta d),
      template (meta d), draft (meta d))"

text \<open>
  Modelled from the spec: SiteModel (section 4.4). The chronological ordering is the
  documents sorted by date (section 8), ties broken by the source path. The tag index
  gives, for a tag, the documents that carry it, in chronological order; the
  pagination groups and the next/previous chain are taken from the same order.
\<close>

definition site_model :: "site_config \<Rightarrow> document list \<Rightarrow> site" where
  "site_model cfg ds =
     (let ordered = sort_key document_key ds in
      \<lparr> configuration = cfg,
        chronological = ordered,
        tag_index = (\<lambda>t. filter (\<lambda>d. t \<in> set (tags (meta d))) ordered),
        pagination = paginate (page_size cfg) ordered,
        next_previous = link_chain ordered \<rparr>)"

subsection \<open>Renderer\<close>

text \<open>
  Modelled from the spec: steps (3) and (4) of section 4.5 for one document: resolve
  its template, convert its body (\<open>RenderError\<close> wraps a conversion failure, section
  4.3), apply the template to the rendered body and the site.
\<close>

definition render_document ::
  "externals \<Rightarrow> site_config \<Rightarrow> string list \<Rightarrow> site \<Rightarrow> document \<Rightarrow> build_error + rendered_page" where
  "render_document X cfg templates sm d =
     (case resolve_template cfg templates d of
        Inl e \<Rightarrow> Inl e
      | Inr t \<Rightarrow>
          (case markdown_to_html X (body d) of
             None \<Rightarrow> Inl RenderError
           | Some h \<Rightarrow>
               Inr \<lparr> page_document = d, html = apply_template X t sm d h,
                     page_path = output_path d \<rparr>))"

subsection \<open>BuildPipeline\<close>

text \<open>
  Modelled from the spec: the error policy of sections 4.5 and 7. In best-effort mode
  every item is processed and the errors are collected; in the mode that aborts on any
  error, processing stops at the first error.
\<close>

fun collect :: "build_mode \<Rightarrow> ('a \<Rightarrow> build_error + 'b) \<Rightarrow> 'a list \<Rightarrow> 'b list \<times> ('a \<times> build_error) list" where
  "collect m f [] = ([], [])"
| "collect m f (x # xs) =
     (case f x of
        Inl e \<Rightarrow>
          (if m = AbortOnError then ([], [(x, e)])
           else (fst (collect m f xs), (x, e) # snd (collect m f xs)))
      | Inr y \<Rightarrow> (y # fst (collect m f xs), snd (collect m f xs)))"

text \<open>Modelled from the spec: the states of the state machine of section 4.5.\<close>

datatype phase = Idle | Loading | Modeling | Rendering | Writing | Done | Failed

text \<open>
  Modelled from the spec: what one build pass holds (sections 3 to 5): the state of the
  state machine, the loaded documents, the site, the rendered pages, the pages written
  in this pass, the output tree (path to file content; the only state that persists
  between builds) and the collected errors.
\<close>

record build_state =
  phase :: phase
  documents :: "document list"
  site_of :: site
  pages :: "rendered_page list"
  written :: "rendered_page list"
  output_tree :: "string \<rightharpoonup> string"
  error_log :: "error_entry list"

text \<open>
  Modelled from the spec: step (5) of section 4.5, with the invariant of section 3 that
  an output path is unique across a Site and a collision is a build error. A page
  whose path was already written in this pass, or whose path cannot be written, is
  refused with \<open>WriteError\<close>; in the aborting mode the remaining writes are given up
  (section 7).
\<close>

fun write_pages :: "externals \<Rightarrow> build_mode \<Rightarrow> rendered_page list \<Rightarrow> build_state \<Rightarrow> build_state" where
  "write_pages X m [] s = s"
| "write_pages X m (p # ps) s =
     (if page_path p \<in> set (map page_path (written s)) \<or> \<not> writable X (page_path p) then
        (let s' = s\<lparr>error_log := error_log s @ [(source_path (page_document p), WriteError)]\<rparr>
         in if m = AbortOnError then s' else write_pages X m ps s')
      else
        write_pages X m ps
          (s\<lparr>output_tree := (output_tree s)(page_path p \<mapsto> html p),
              written := written s @ [p]\<rparr>))"

text \<open>
  Modelled from the spec: \<open>Failed\<close> is reachable only in the mode that aborts on any
  error (section 4.5); the best-effort mode goes on regardless.
\<close>

definition advance :: "build_mode \<Rightarrow> error_entry list \<Rightarrow> phase \<Rightarrow> phase" where
  "advance m errs nxt = (if m = AbortOnError \<and> errs \<noteq> [] then Failed else nxt)"

text \<open>
  Modelled from the spec: one transition of the state machine
  \<open>Idle \<rightarrow> Loading \<rightarrow> Modeling \<rightarrow> Rendering \<rightarrow> Writing \<rightarrow> Done\<close> of section 4.5, each
  doing the work of its step: load all documents, build the site model from the
  loaded ones, resolve and render and apply the template for each document of the site
  (in the order of the site, which is its ordered collection of documents), write each
  page. \<open>Done\<close> and \<open>Failed\<close> are final.
\<close>

definition step :: "externals \<Rightarrow> site_config \<Rightarrow> string list \<Rightarrow> source_tree \<Rightarrow> build_state \<Rightarrow> build_state" where
  "step X cfg templates src s =
     (case phase s of
        Idle \<Rightarrow> s\<lparr>phase := Loading\<rparr>
      | Loading \<Rightarrow>
          (let r = collect (mode cfg) (load_document X) src;
               errs = error_log s @ map (\<lambda>(f, e). (fst f, e)) (snd r)
           in s\<lparr>documents := fst r, error_log := errs,
                 phase := advance (mode cfg) errs Modeling\<rparr>)
      | Modeling \<Rightarrow> s\<lparr>site_of := site_model cfg (documents s), phase := Rendering\<rparr>
      | Rendering \<Rightarrow>
          (let r = collect (mode cfg) (render_document X cfg templates (site_of s))
                     (chronological (site_of s));
               errs = error_log s @ map (\<lambda>(d, e). (source_path d, e)) (snd r)
           in s\<lparr>pages := fst r, error_log := errs,
                 phase := advance (mode cfg) errs Writing\<rparr>)
      | Writing \<Rightarrow>
          (let s' = write_pages X (mode cfg) (pages s) s
           in s'\<lparr>phase := advance (mode cfg) (error_log s') Done\<rparr>)
      | Done \<Rightarrow> s
      | Failed \<Rightarrow> s)"

text \<open>The number of transitions a state is away from a final state, at most.\<close>

fun remaining :: "phase \<Rightarrow> nat" where
  "remaining Idle = 5"
| "remaining Loading = 4"
| "remaining Modeling = 3"
| "remaining Rendering = 2"
| "remaining Writing = 1"
| "remaining Done = 0"
| "remaining Failed = 0"

text \<open>
  Modelled from the spec: a build pass runs the state machine until it is \<open>Done\<close> or
  \<open>Failed\<close> (sections 4.5 and 5: a build runs to completion in one invocation). It
  always gets there: every transition brings a final state nearer.
\<close>

function run :: "externals \<Rightarrow> site_config \<Rightarrow> string list \<Rightarrow> source_tree \<Rightarrow> build_state \<Rightarrow> build_state" where
  "run X cfg templates src s =
     (if phase s = Done \<or> phase s = Failed then s
      else run X cfg templates src (step X cfg templates src s))"
  by pat_completeness auto
termination
proof (relation "measure (\<lambda>(X, cfg, templates, src, s). remaining (phase s))")
  show "wf (measure (\<lambda>(X, cfg, templates, src, s). remaining (phase s)))"
    by simp
next
  fix X cfg templates src and s :: build_state
  assume "\<not> (phase s = Done \<or> phase s = Failed)"
  then have "remaining (phase (step X cfg templates src s)) < remaining (phase s)"
    by (cases "phase s") (simp_all add: step_def Let_def advance_def)
  then show "((X, cfg, templates, src, step X cfg templates src s), (X, cfg, templates, src, s))
               \<in> measure (\<lambda>(X, cfg, templates, src, s). remaining (phase s))"
    by simp
qed

declare run.simps [simp del]

text \<open>
  Modelled from the spec: the state a build pass starts in. Nothing persists between
  builds but the output tree (section 3), so the pass starts from the output tree that
  is there, \<open>previous\<close>, and from nothing else.
\<close>

definition initial_state :: "site_config \<Rightarrow> (string \<rightharpoonup> string) \<Rightarrow> build_state" where
  "initial_state cfg previous =
     \<lparr> phase = Idle, documents = [], site_of = site_model cfg [], pages = [],
       written = [], output_tree = previous, error_log = [] \<rparr>"

text \<open>
  Modelled from the spec: BuildPipeline (section 4.5), invoked with the externals, the
  configuration, the names of the existing templates, the source tree and the output
  tree found.
\<close>

definition build ::
  "externals \<Rightarrow> site_config \<Rightarrow> string list \<Rightarrow> source_tree \<Rightarrow> (string \<rightharpoonup> string) \<Rightarrow> build_state" where
  "build X cfg templates src previous = run X cfg templates src (initial_state cfg previous)"

text \<open>
  Modelled from the spec: the second half of step (5) of section 4.5: static assets,
  the files of the source root that are not documents, are copied verbatim, each a path
  and its content. \<open>taken\<close> lists the paths already written in this pass; an asset
  whose path is taken, or cannot be written, is refused with \<open>WriteError\<close>, so that
  no file of the pass is overwritten by another.
\<close>

fun copy_assets ::
  "externals \<Rightarrow> build_mode \<Rightarrow> (string \<times> string) list \<Rightarrow> string list \<Rightarrow> build_state \<Rightarrow> build_state" where
  "copy_assets X m [] taken s = s"
| "copy_assets X m (a # as) taken s =
     (if fst a \<in> set taken \<or> \<not> writable X (fst a) then
        (let s' = s\<lparr>error_log := error_log s @ [(fst a, WriteError)]\<rparr>
         in if m = AbortOnError then s' else copy_assets X m as taken s')
      else
        copy_assets X m as (fst a # taken)
          (s\<lparr>output_tree := (output_tree s)(fst a \<mapsto> snd a)\<rparr>))"

text \<open>
  Modelled from the spec: one whole build (section 4.5): the pass over the documents,
  and, when it has written its pages, the copy of the static assets, in the order of
  their paths. The output tree of the result is the output tree of the build.
\<close>

definition build_site ::
  "externals \<Rightarrow> site_config \<Rightarrow> string list \<Rightarrow> source_tree \<Rightarrow> (string \<times> string) list
     \<Rightarrow> (string \<rightharpoonup> string) \<Rightarrow> build_state" where
  "build_site X cfg templates src assets previous =
     (let s = build X cfg templates src previous in
      if phase s = Done then
        (let s' = copy_assets X (mode cfg) (sort assets) (map page_path (written s)) s
         in s'\<lparr>phase := advance (mode cfg) (error_log s') Done\<rparr>)
      else s)"

text \<open>
  Two states of a build pass that agree in what the pass has produced: the state of
  the state machine, the site, the pages, the output tree, and whether an error has
  been recorded. The documents need only be the same up to their order, and only where
  the site is about to be built from them.
\<close>

definition same_outcome :: "build_state \<Rightarrow> build_state \<Rightarrow> bool" where
  "same_outcome s s' \<longleftrightarrow>
     phase s = phase s' \<and> site_of s = site_of s' \<and> pages s = pages s'
     \<and> written s = written s' \<and> output_tree s = output_tree s'
     \<and> (error_log s = [] \<longleftrightarrow> error_log s' = [])
     \<and> (phase s = Modeling \<longrightarrow> mset (documents s) = mset (documents s'))"

text \<open>
  Modelled from the spec: the summary for the caller (section 7): the overall-success
  flag, and the count of errors of one kind.
\<close>

definition overall_success :: "build_state \<Rightarrow> bool" where
  "overall_success s = (error_log s = [])"

definition error_count :: "build_error \<Rightarrow> build_state \<Rightarrow> nat" where
  "error_count k s = length (filter (\<lambda>entry. snd entry = k) (error_log s))"

subsection \<open>Source files by what becomes of them\<close>

text \<open>A file whose metadata block is malformed.\<close>

definition malformed :: "externals \<Rightarrow> string \<times> source_file \<Rightarrow> bool" where
  "malformed X f = (load_document X f = Inl MalformedMetadata)"

text \<open>
  A file that goes through every step on its own: it loads, its template resolves, its
  body converts, and its output path can be written.
\<close>

definition clean_file :: "externals \<Rightarrow> site_config \<Rightarrow> string list \<Rightarrow> string \<times> source_file \<Rightarrow> bool" where
  "clean_file X cfg templates f =
     (case load_document X f of
        Inl e \<Rightarrow> False
      | Inr d \<Rightarrow>
          (case resolve_template cfg templates d of
             Inl e \<Rightarrow> False
           | Inr t \<Rightarrow> markdown_to_html X (body d) \<noteq> None \<and> writable X (output_path d)))"

text \<open>The output path a file is heading for, if it loads.\<close>

definition planned_path :: "externals \<Rightarrow> string \<times> source_file \<Rightarrow> string option" where
  "planned_path X f =
     (case load_document X f of Inl e \<Rightarrow> None | Inr d \<Rightarrow> Some (output_path d))"

subsection \<open>A concrete site\<close>

text \<open>Three posts; the first two carry the same date.\<close>

definition doc_a :: document where
  "doc_a = \<lparr> source_path = ''posts/a.md'',
             meta = \<lparr> title = ''A'', date = 20120101, tags = [''news''], template = None,
                      draft = False \<rparr>,
             body = ''alpha'', output_path = ''posts/a.html'' \<rparr>"

definition doc_b :: document where
  "doc_b = \<lparr> source_path = ''posts/b.md'',
             meta = \<lparr> title = ''B'', date = 20120101, tags = [''news''], template = None,
                      draft = False \<rparr>,
             body = ''beta'', output_path = ''posts/b.html'' \<rparr>"

definition doc_c :: document where
  "doc_c = \<lparr> source_path = ''posts/c.md'',
             meta = \<lparr> title = ''C'', date = 20120202, tags = [''news''], template = None,
                      draft = False \<rparr>,
             body = ''gamma'', output_path = ''posts/c.html'' \<rparr>"

text \<open>The document of the specification's example, with no template key.\<close>

definition hello_doc :: document where
  "hello_doc = \<lparr> source_path = ''posts/hello.md'',
             meta = \<lparr> title = ''Hello'', date = 20120101, tags = [], template = None,
                      draft = False \<rparr>,
             body = ''hello'', output_path = ''posts/hello.html'' \<rparr>"

text \<open>A configuration with site default \<^verbatim>\<open>post.html\<close> and no per-directory convention.\<close>

definition demo_config :: "build_mode \<Rightarrow> site_config" where
  "demo_config m =
     \<lparr> site_title = ''elyse'', base_url = ''/'', output_directory = ''_site'',
       default_template = ''post.html'', directory_template = (\<lambda>path. None),
       page_size = 10, mode = m \<rparr>"

text \<open>
  The same configuration with a per-directory convention that gives every document the
  template \<^verbatim>\<open>posts.html\<close>.
\<close>

definition shadow_config :: site_config where
  "shadow_config =
     \<lparr> site_title = ''elyse'', base_url = ''/'', output_directory = ''_site'',
       default_template = ''post.html'', directory_template = (\<lambda>path. Some ''posts.html''),
       page_size = 10, mode = BestEffort \<rparr>"

text \<open>
  Toy collaborators: a file that is just an opening delimiter is malformed, any other
  text is its own title and body; the output path is the title with \<^verbatim>\<open>.html\<close>; the
  conversion and the template leave the body as it is; every path can be written.
\<close>

definition demo_externals :: externals where
  "demo_externals =
     \<lparr> parse_front_matter =
         (\<lambda>path text. if text = ''---'' then None
            else Some (\<lparr> title = text, date = 0, tags = [], template = None, draft = False \<rparr>,
                       text)),
       derive_output_path = (\<lambda>path m. title m @ ''.html''),
       markdown_to_html = (\<lambda>b. Some b),
       apply_template = (\<lambda>t sm d h. h),
       writable = (\<lambda>path. True) \<rparr>"

text \<open>Three documents, the second with a malformed metadata block.\<close>

definition demo_tree :: source_tree where
  "demo_tree =
     [(''a.md'', Source_text ''alpha''), (''b.md'', Source_text ''---''),
      (''c.md'', Source_text ''gamma'')]"



text \<open>Two static assets.\<close>

definition demo_assets :: "(string \<times> string) list" where
  "demo_assets = [(''style.css'', ''css''), (''logo.png'', ''png'')]"



section \<open>Properties of the packaging script\<close>

lemma spec_roles_complete: "set spec_roles = UNIV"
proof -
  have "r \<in> set spec_roles" for r
    by (cases r) (simp_all add: spec_roles_def)
  then show ?thesis by blast
qed

text \<open>
  Claim C1. The \<^verbatim>\<open>install_requires\<close> argument is the list of six packages pyyaml,
  tornado, houdini.py, misaka, pygments, unidecode, whatever the README holds: six
  entries, no entry twice, and as a set exactly the packages that the six roles of the
  specification name, one package per role.
\<close>

theorem install_requires_six_roles:
  "install_requires (setup_arguments readme) =
     [''pyyaml'', ''tornado'', ''houdini.py'', ''misaka'', ''pygments'', ''unidecode'']
   \<and> length (install_requires (setup_arguments readme)) = 6
   \<and> distinct (install_requires (setup_arguments readme))
   \<and> set (install_requires (setup_arguments readme)) = spec_role_package ` UNIV
   \<and> inj spec_role_package"
proof -
  have img: "spec_role_package ` UNIV = set (map spec_role_package spec_roles)"
    by (simp add: spec_roles_complete)
  have inj: "inj spec_role_package"
  proof (rule injI)
    fix a b
    assume "spec_role_package a = spec_role_package b"
    then show "a = b" by (cases a; cases b) simp_all
  qed
  show ?thesis
    unfolding img using inj
    by (auto simp: setup_arguments_def spec_roles_def)
qed

text \<open>
  Claim C8. The \<^verbatim>\<open>description\<close> argument is the string
  \<^verbatim>\<open>A simple static website generator.\<close>, and the same call carries an author, a
  list of six dependencies and a list of seven classifiers.
\<close>

theorem description_simple_static_website_generator:
  "description (setup_arguments readme) = ''A simple static website generator.''
   \<and> author (setup_arguments readme) = ''Frank Smit''
   \<and> author_email (setup_arguments readme) = ''frank@61924.nl''
   \<and> length (install_requires (setup_arguments readme)) = 6
   \<and> length (classifiers (setup_arguments readme)) = 7"
  by (simp add: setup_arguments_def)

lemma import_setup_cases:
  "import_setup env = Inr Setuptools \<longleftrightarrow> setuptools_import env = Imported"
  "import_setup env = Inr Distutils \<longleftrightarrow>
     setuptools_import env = Raises ImportError \<and> distutils_import env = Imported"
  by (auto simp: import_setup_def split: import_outcome.splits)

text \<open>
  Claim C9, as stated, fails where \<^verbatim>\<open>setup\<close> cannot be imported at all: with
  \<^verbatim>\<open>README.rst\<close> missing, the script ends with the \<^verbatim>\<open>ImportError\<close> of line 6,
  not with an I/O error; line 16 is never reached.
\<close>

theorem readme_missing_import_error_counterexample:
  "files env_no_setup ''README.rst'' = Missing
   \<and> fst (setup_py env_no_setup []) = Some ImportError
   \<and> fst (setup_py env_no_setup []) \<noteq> Some IOError
   \<and> snd (setup_py env_no_setup []) = []"
  by (simp add: env_no_setup_def setup_py_def import_setup_def)

text \<open>
  Claim C9, amended. Every run of the script that calls \<^verbatim>\<open>setup\<close> has read
  \<^verbatim>\<open>README.rst\<close> first, and passes its text as \<^verbatim>\<open>long_description\<close>. If
  \<^verbatim>\<open>README.rst\<close> does not exist, the script ends with an exception and registers
  nothing; the exception is the I/O error whenever \<^verbatim>\<open>setup\<close> could be imported.
  When the import of \<^verbatim>\<open>setup\<close> fails, the script ends with the exception of the
  import and registers nothing, whatever the working directory holds: the import comes
  before \<^verbatim>\<open>README.rst\<close> is opened.
\<close>

theorem readme_read_before_setup:
  "(setup_py env registered = (None, registered') \<longrightarrow>
      (\<exists>p readme. import_setup env = Inr p
         \<and> files env ''README.rst'' = Readable readme
         \<and> registered' = registered @ [(p, setup_arguments readme)]
         \<and> long_description (snd (last registered')) = readme))
   \<and> (files env ''README.rst'' = Missing \<longrightarrow>
        (\<exists>e. fst (setup_py env registered) = Some e)
        \<and> snd (setup_py env registered) = registered)
   \<and> (files env ''README.rst'' = Missing \<and> import_setup env = Inr p \<longrightarrow>
        setup_py env registered = (Some IOError, registered))
   \<and> (import_setup env = Inl e \<longrightarrow>
        setup_py env registered = (Some e, registered)
        \<and> setup_py (env\<lparr>files := fs\<rparr>) registered = (Some e, registered))"
proof -
  have same: "import_setup (env\<lparr>files := fs\<rparr>) = import_setup env"
    by (simp add: import_setup_def split: import_outcome.splits)
  have "import_setup env = Inl e \<longrightarrow>
        setup_py env registered = (Some e, registered)
        \<and> setup_py (env\<lparr>files := fs\<rparr>) registered = (Some e, registered)"
    by (simp add: setup_py_def same)
  moreover have "(setup_py env registered = (None, registered') \<longrightarrow>
      (\<exists>p readme. import_setup env = Inr p
         \<and> files env ''README.rst'' = Readable readme
         \<and> registered' = registered @ [(p, setup_arguments readme)]
         \<and> long_description (snd (last registered')) = readme))
   \<and> (files env ''README.rst'' = Missing \<longrightarrow>
        (\<exists>e. fst (setup_py env registered) = Some e)
        \<and> snd (setup_py env registered) = registered)
   \<and> (files env ''README.rst'' = Missing \<and> import_setup env = Inr p \<longrightarrow>
        setup_py env registered = (Some IOError, registered))"
    by (auto simp: setup_py_def open_read_def setup_arguments_def
             split: sum.splits file_state.splits)
  ultimately show ?thesis
    by blast
qed

theorem readme_read_before_setup_witness:
  "setup_py env_setuptools [] = (None, [(Setuptools, setup_arguments ''elyse'')])
   \<and> files env_setuptools ''README.rst'' = Readable ''elyse''
   \<and> files env_no_readme ''README.rst'' = Missing
   \<and> import_setup env_no_readme = Inr Setuptools
   \<and> setup_py env_no_readme [] = (Some IOError, [])
   \<and> import_setup env_no_setup = Inl ImportError
   \<and> setup_py env_no_setup [] = (Some ImportError, [])
   \<and> setup_py (env_no_setup\<lparr>files := readme_only ''elyse''\<rparr>) [] = (Some ImportError, [])"
proof -
  have a: "files env_no_readme ''README.rst'' = Missing"
    by (simp add: env_no_readme_def)
  have b: "import_setup env_no_readme = Inr Setuptools"
    by (simp add: env_no_readme_def import_setup_def)
  have c: "setup_py env_setuptools [] = (None, [(Setuptools, setup_arguments ''elyse'')])"
    by (simp add: setup_py_def env_setuptools_def import_setup_def open_read_def
          readme_only_def)
  from readme_read_before_setup
         [where env = env_no_readme and registered = "[]" and p = Setuptools] a b
  have d: "setup_py env_no_readme [] = (Some IOError, [])"
    by blast
  from readme_read_before_setup
         [where env = env_setuptools and registered = "[]"
            and registered' = "[(Setuptools, setup_arguments ''elyse'')]"] c
  have e: "files env_setuptools ''README.rst'' = Readable ''elyse''"
    by (auto simp: setup_arguments_def)
  have f: "import_setup env_no_setup = Inl ImportError"
    by (simp add: env_no_setup_def import_setup_def)
  from readme_read_before_setup
         [where env = env_no_setup and registered = "[]" and e = ImportError
            and fs = "readme_only ''elyse''"] f
  have g: "setup_py env_no_setup [] = (Some ImportError, [])"
    and h: "setup_py (env_no_setup\<lparr>files := readme_only ''elyse''\<rparr>) [] = (Some ImportError, [])"
    by blast+
  from a b c d e f g h show ?thesis by blast
qed

text \<open>
  Claim C10. \<^verbatim>\<open>setup\<close> comes from \<^verbatim>\<open>setuptools\<close> exactly when that import
  succeeds, and from \<^verbatim>\<open>distutils.core\<close> exactly when the first import raised
  \<^verbatim>\<open>ImportError\<close> and the second succeeded. Two runs over the same files in which
  \<^verbatim>\<open>setup\<close> was imported, from whichever module, end the same way and pass the same
  arguments to \<^verbatim>\<open>setup\<close>.
\<close>

theorem setup_fallback_same_arguments:
  "(import_setup env = Inr Setuptools \<longleftrightarrow> setuptools_import env = Imported)
   \<and> (import_setup env = Inr Distutils \<longleftrightarrow>
        setuptools_import env = Raises ImportError \<and> distutils_import env = Imported)
   \<and> (import_setup env = Inr p \<and> import_setup env' = Inr p' \<and> files env = files env' \<longrightarrow>
        fst (setup_py env registered) = fst (setup_py env' registered)
        \<and> map snd (snd (setup_py env registered)) = map snd (snd (setup_py env' registered)))"
  by (auto simp: import_setup_cases setup_py_def split: sum.splits)

theorem setup_fallback_same_arguments_witness:
  "import_setup env_setuptools = Inr Setuptools
   \<and> import_setup env_distutils_only = Inr Distutils
   \<and> files env_setuptools = files env_distutils_only
   \<and> setup_py env_setuptools [] = (None, [(Setuptools, setup_arguments ''elyse'')])
   \<and> setup_py env_distutils_only [] = (None, [(Distutils, setup_arguments ''elyse'')])
   \<and> map snd (snd (setup_py env_setuptools [])) =
       map snd (snd (setup_py env_distutils_only []))"
proof -
  have a: "import_setup env_setuptools = Inr Setuptools"
    by (simp add: env_setuptools_def import_setup_def)
  have b: "import_setup env_distutils_only = Inr Distutils"
    by (simp add: env_distutils_only_def import_setup_def)
  have c: "files env_setuptools = files env_distutils_only"
    by (simp add: env_setuptools_def env_distutils_only_def)
  have d: "setup_py env_setuptools [] = (None, [(Setuptools, setup_arguments ''elyse'')])"
    by (simp add: setup_py_def env_setuptools_def import_setup_def open_read_def
          readme_only_def)
  have e: "setup_py env_distutils_only [] = (None, [(Distutils, setup_arguments ''elyse'')])"
    by (simp add: setup_py_def env_distutils_only_def import_setup_def open_read_def
          readme_only_def)
  from setup_fallback_same_arguments
         [where env = env_setuptools and env' = env_distutils_only
            and p = Setuptools and p' = Distutils and registered = "[]"] a b c
  have "map snd (snd (setup_py env_setuptools [])) =
          map snd (snd (setup_py env_distutils_only []))"
    by blast
  with a b c d e show ?thesis by blast
qed

section \<open>Properties of the build pipeline\<close>

subsection \<open>SiteModel and the discovery order\<close>

lemma document_key_inj: "inj document_key"
proof (rule injI)
  fix d d' :: document
  assume "document_key d = document_key d'"
  then have "source_path d = source_path d'" "output_path d = output_path d'"
    "body d = body d'" "meta d = meta d'"
    by (auto simp: document_key_def intro: metadata.equality)
  then show "d = d'"
    by (auto intro: document.equality)
qed

lemma sorted_by_date:
  "sorted (map (\<lambda>d. date (meta d)) (sort_key document_key ds))"
proof -
  have "sorted (map document_key (sort_key document_key ds))"
    by simp
  then have "sorted_wrt (\<lambda>d d'. document_key d \<le> document_key d') (sort_key document_key ds)"
    by (simp add: sorted_map)
  then have "sorted_wrt (\<lambda>d d'. date (meta d) \<le> date (meta d')) (sort_key document_key ds)"
    by (rule sorted_wrt_mono_rel [rotated]) (auto simp: document_key_def less_eq_prod_def)
  then show ?thesis
    by (simp add: sorted_map)
qed

lemma site_model_permutation:
  assumes "mset ds = mset ds'"
  shows "site_model cfg ds = site_model cfg ds'"
proof -
  have "inj_on document_key (set ds)"
    using document_key_inj by (rule inj_on_subset) simp
  with assms have "sort_key document_key ds = sort_key document_key ds'"
    by (rule sort_key_eq_sort_key)
  then show ?thesis
    by (simp add: site_model_def Let_def Let_def)
qed

lemma concat_paginate: "concat (paginate n xs) = xs"
proof (induction n xs rule: paginate.induct)
  case (1 n xs)
  show ?case
  proof (cases "xs = [] \<or> n = 0")
    case True
    then show ?thesis
      by (subst paginate.simps) auto
  next
    case False
    with 1 have "concat (paginate n (drop n xs)) = drop n xs"
      by simp
    with False show ?thesis
      by (subst paginate.simps) simp
  qed
qed

lemma link_chain_nth:
  assumes "i < length ds"
  shows "link_chain ds ! i
         = (if i = 0 then None else Some (ds ! (i - 1)), ds ! i,
            if Suc i < length ds then Some (ds ! Suc i) else None)"
proof -
  have 1: "(None # map Some ds) ! i = (if i = 0 then None else Some (ds ! (i - 1)))"
    using assms by (cases i) simp_all
  have 2: "(map Some (tl ds) @ [None]) ! i = (if Suc i < length ds then Some (ds ! Suc i) else None)"
    using assms by (cases ds) (auto simp: nth_append)
  from assms 1 2 show ?thesis
    by (simp add: link_chain_def)
qed

text \<open>
  Claim C7. The derived structures of SiteModel are functions of the set of documents:
  for every two input sequences that are permutations of each other the whole site
  model is the same, in particular the tag index, the pagination groups and the
  next/previous chain. The chain is the documents sorted by date, each of the given
  documents once, each linked to the one before and the one after it in that order;
  the tag index lists for a tag the documents that carry it, in that order; the
  pagination groups split that order.
\<close>

theorem site_model_discovery_order:
  "(mset ds = mset ds' \<longrightarrow>
      site_model cfg ds = site_model cfg ds'
      \<and> chronological (site_model cfg ds) = chronological (site_model cfg ds')
      \<and> tag_index (site_model cfg ds) = tag_index (site_model cfg ds')
      \<and> pagination (site_model cfg ds) = pagination (site_model cfg ds')
      \<and> next_previous (site_model cfg ds) = next_previous (site_model cfg ds'))
   \<and> mset (chronological (site_model cfg ds)) = mset ds
   \<and> sorted (map (\<lambda>d. date (meta d)) (chronological (site_model cfg ds)))
   \<and> (\<forall>t. tag_index (site_model cfg ds) t
            = filter (\<lambda>d. t \<in> set (tags (meta d))) (chronological (site_model cfg ds)))
   \<and> concat (pagination (site_model cfg ds)) = chronological (site_model cfg ds)
   \<and> length (next_previous (site_model cfg ds)) = length ds
   \<and> (\<forall>i < length ds.
         next_previous (site_model cfg ds) ! i
         = (if i = 0 then None else Some (chronological (site_model cfg ds) ! (i - 1)),
            chronological (site_model cfg ds) ! i,
            if Suc i < length ds then Some (chronological (site_model cfg ds) ! Suc i)
            else None))"
proof -
  have "site_model cfg ds = site_model cfg ds'" if "mset ds = mset ds'"
    using that by (rule site_model_permutation)
  moreover have "mset (chronological (site_model cfg ds)) = mset ds"
    by (simp add: site_model_def Let_def Let_def)
  moreover have "sorted (map (\<lambda>d. date (meta d)) (chronological (site_model cfg ds)))"
    by (simp add: site_model_def Let_def sorted_by_date)
  moreover have "\<forall>t. tag_index (site_model cfg ds) t
            = filter (\<lambda>d. t \<in> set (tags (meta d))) (chronological (site_model cfg ds))"
    by (simp add: site_model_def Let_def Let_def)
  moreover have "concat (pagination (site_model cfg ds)) = chronological (site_model cfg ds)"
    by (simp add: site_model_def Let_def concat_paginate)
  moreover have "length (next_previous (site_model cfg ds)) = length ds"
    by (simp add: site_model_def Let_def link_chain_def)
  moreover have "\<forall>i < length ds.
         next_previous (site_model cfg ds) ! i
         = (if i = 0 then None else Some (chronological (site_model cfg ds) ! (i - 1)),
            chronological (site_model cfg ds) ! i,
            if Suc i < length ds then Some (chronological (site_model cfg ds) ! Suc i)
            else None)"
    using link_chain_nth [of _ "sort_key document_key ds"]
    by (simp add: site_model_def Let_def Let_def)
  ultimately show ?thesis
    by simp
qed

theorem site_model_discovery_order_witness:
  "mset [doc_a, doc_b, doc_c] = mset [doc_c, doc_b, doc_a]
   \<and> date (meta doc_a) = date (meta doc_b)
   \<and> chronological (site_model (demo_config BestEffort) [doc_a, doc_b, doc_c])
       = [doc_a, doc_b, doc_c]
   \<and> chronological (site_model (demo_config BestEffort) [doc_c, doc_b, doc_a])
       = [doc_a, doc_b, doc_c]
   \<and> next_previous (site_model (demo_config BestEffort) [doc_c, doc_b, doc_a])
       = [(None, doc_a, Some doc_b), (Some doc_a, doc_b, Some doc_c), (Some doc_b, doc_c, None)]
   \<and> next_previous (site_model (demo_config BestEffort) [doc_a, doc_b, doc_c])
       = next_previous (site_model (demo_config BestEffort) [doc_c, doc_b, doc_a])
   \<and> tag_index (site_model (demo_config BestEffort) [doc_a, doc_b, doc_c])
       = tag_index (site_model (demo_config BestEffort) [doc_c, doc_b, doc_a])
   \<and> tag_index (site_model (demo_config BestEffort) [doc_c, doc_b, doc_a]) ''news''
       = [doc_a, doc_b, doc_c]"
proof -
  have m: "mset [doc_a, doc_b, doc_c] = mset [doc_c, doc_b, doc_a]"
    by simp
  have d: "date (meta doc_a) = date (meta doc_b)"
    by (simp add: doc_a_def doc_b_def)
  have c: "chronological (site_model (demo_config BestEffort) [doc_c, doc_b, doc_a])
             = [doc_a, doc_b, doc_c]"
    by (simp add: site_model_def Let_def document_key_def doc_a_def doc_b_def doc_c_def)
  note all = site_model_discovery_order
    [of "[doc_a, doc_b, doc_c]" "[doc_c, doc_b, doc_a]" "demo_config BestEffort"]
  from all m have e: "site_model (demo_config BestEffort) [doc_a, doc_b, doc_c]
                    = site_model (demo_config BestEffort) [doc_c, doc_b, doc_a]"
    by blast
  have n: "next_previous (site_model (demo_config BestEffort) [doc_c, doc_b, doc_a])
       = [(None, doc_a, Some doc_b), (Some doc_a, doc_b, Some doc_c), (Some doc_b, doc_c, None)]"
    by (simp add: site_model_def Let_def document_key_def doc_a_def doc_b_def doc_c_def link_chain_def)
  have t: "tag_index (site_model (demo_config BestEffort) [doc_c, doc_b, doc_a]) ''news''
       = [doc_a, doc_b, doc_c]"
    by (simp add: site_model_def Let_def document_key_def doc_a_def doc_b_def doc_c_def)
  from m d c e n t show ?thesis
    by simp
qed

subsection \<open>Template resolution\<close>

lemma find_candidates:
  "find P ((case a of None \<Rightarrow> [] | Some t \<Rightarrow> [t]) @ (case b of None \<Rightarrow> [] | Some t \<Rightarrow> [t]) @ [c])
   = (case a of Some t \<Rightarrow> if P t then Some t else
                 (case b of Some u \<Rightarrow> if P u then Some u else (if P c then Some c else None)
                          | None \<Rightarrow> if P c then Some c else None)
             | None \<Rightarrow> (case b of Some u \<Rightarrow> if P u then Some u else (if P c then Some c else None)
                          | None \<Rightarrow> if P c then Some c else None))"
  by (simp split: option.splits)

text \<open>
  Claim C6, as stated, fails in its concrete example as soon as the per-directory
  convention resolves: the document at \<^verbatim>\<open>posts/hello.md\<close> has no template key and
  the site default is \<^verbatim>\<open>post.html\<close>, which exists, but the convention's
  \<^verbatim>\<open>posts.html\<close> exists too and comes first in the resolution order.
\<close>

theorem directory_template_first_counterexample:
  "source_path hello_doc = ''posts/hello.md''
   \<and> template (meta hello_doc) = None
   \<and> default_template shadow_config = ''post.html''
   \<and> resolve_template shadow_config [''posts.html'', ''post.html''] hello_doc = Inr ''posts.html''
   \<and> resolve_template shadow_config [''posts.html'', ''post.html''] hello_doc \<noteq> Inr ''post.html''"
  by (simp add: hello_doc_def shadow_config_def resolve_template_def template_candidates_def)

text \<open>
  Claim C6, amended. TemplateResolver returns the first existing template in the order
  explicit reference, per-directory convention, site-wide default: the explicit
  reference if it exists; else the convention's template if it exists; else the
  default if it exists. It fails exactly when none of the three resolves to an
  existing template, and then with \<open>TemplateNotFound\<close>. Concretely, a document at
  \<^verbatim>\<open>posts/hello.md\<close> with no template key resolves to the site default
  \<^verbatim>\<open>post.html\<close> provided that this template exists and the per-directory
  convention names no other existing template for the document.
\<close>

theorem resolve_template_order:
  "(template (meta d) = Some t \<and> t \<in> set templates \<longrightarrow>
      resolve_template cfg templates d = Inr t)
   \<and> ((\<forall>t'. template (meta d) = Some t' \<longrightarrow> t' \<notin> set templates)
        \<and> directory_template cfg (source_path d) = Some t \<and> t \<in> set templates \<longrightarrow>
      resolve_template cfg templates d = Inr t)
   \<and> ((\<forall>t'. template (meta d) = Some t' \<longrightarrow> t' \<notin> set templates)
        \<and> (\<forall>t'. directory_template cfg (source_path d) = Some t' \<longrightarrow> t' \<notin> set templates)
        \<and> default_template cfg \<in> set templates \<longrightarrow>
      resolve_template cfg templates d = Inr (default_template cfg))
   \<and> (resolve_template cfg templates d = Inl TemplateNotFound \<longleftrightarrow>
        (\<forall>t'. template (meta d) = Some t' \<longrightarrow> t' \<notin> set templates)
        \<and> (\<forall>t'. directory_template cfg (source_path d) = Some t' \<longrightarrow> t' \<notin> set templates)
        \<and> default_template cfg \<notin> set templates)
   \<and> (\<forall>e. resolve_template cfg templates d = Inl e \<longrightarrow> e = TemplateNotFound)
   \<and> (source_path d = ''posts/hello.md'' \<and> template (meta d) = None
        \<and> default_template cfg = ''post.html'' \<and> ''post.html'' \<in> set templates
        \<and> (\<forall>t'. directory_template cfg ''posts/hello.md'' = Some t' \<longrightarrow>
               t' \<notin> set templates \<or> t' = ''post.html'') \<longrightarrow>
      resolve_template cfg templates d = Inr ''post.html'')"
  unfolding resolve_template_def template_candidates_def find_candidates
  by (auto split: option.splits)

theorem resolve_template_order_witness:
  "resolve_template (demo_config BestEffort) [''post.html''] hello_doc = Inr ''post.html''
   \<and> resolve_template (demo_config BestEffort) [] hello_doc = Inl TemplateNotFound
   \<and> resolve_template (demo_config BestEffort) [''page.html'', ''post.html'']
        (hello_doc\<lparr>meta := (meta hello_doc)\<lparr>template := Some ''page.html''\<rparr>\<rparr>) = Inr ''page.html''
   \<and> resolve_template shadow_config
        [''posts.html'', ''post.html''] hello_doc = Inr ''posts.html''"
proof -
  have 1: "resolve_template (demo_config BestEffort) [''post.html''] hello_doc = Inr ''post.html''"
    using resolve_template_order [where d = hello_doc and cfg = "demo_config BestEffort"
        and templates = "[''post.html'']"]
    by (simp add: hello_doc_def demo_config_def)
  have 2: "resolve_template (demo_config BestEffort) [] hello_doc = Inl TemplateNotFound"
    using resolve_template_order [where d = hello_doc and cfg = "demo_config BestEffort"
        and templates = "[]"]
    by (simp add: hello_doc_def demo_config_def)
  have 3: "resolve_template (demo_config BestEffort) [''page.html'', ''post.html'']
        (hello_doc\<lparr>meta := (meta hello_doc)\<lparr>template := Some ''page.html''\<rparr>\<rparr>) = Inr ''page.html''"
    using resolve_template_order [where d = "hello_doc\<lparr>meta := (meta hello_doc)\<lparr>template := Some ''page.html''\<rparr>\<rparr>"
        and cfg = "demo_config BestEffort" and t = "''page.html''"
        and templates = "[''page.html'', ''post.html'']"]
    by (simp add: hello_doc_def demo_config_def)
  have 4: "resolve_template shadow_config
        [''posts.html'', ''post.html''] hello_doc = Inr ''posts.html''"
    using resolve_template_order [where d = hello_doc
        and cfg = shadow_config
        and t = "''posts.html''" and templates = "[''posts.html'', ''post.html'']"]
    by (simp add: hello_doc_def shadow_config_def)
  from 1 2 3 4 show ?thesis by simp
qed

subsection \<open>Running the state machine\<close>

lemma run_final:
  "phase s = Done \<or> phase s = Failed \<Longrightarrow> run X cfg templates src s = s"
  by (subst run.simps) simp

lemma run_unfold:
  "phase s \<noteq> Done \<Longrightarrow> phase s \<noteq> Failed \<Longrightarrow>
   run X cfg templates src s = run X cfg templates src (step X cfg templates src s)"
  by (subst run.simps) simp

lemma run_invariant:
  assumes "\<And>s. P s \<Longrightarrow> P (step X cfg templates src s)" and "P s"
  shows "P (run X cfg templates src s)"
  using assms
proof (induction X cfg templates src s rule: run.induct)
  case (1 X cfg templates src s)
  show ?case
  proof (cases "phase s = Done \<or> phase s = Failed")
    case True
    with "1.prems"(2) show ?thesis by (simp add: run_final)
  next
    case False
    have "P (step X cfg templates src s)"
      using "1.prems" by blast
    with False "1.prems"(1) have "P (run X cfg templates src (step X cfg templates src s))"
      by (intro "1.IH") simp_all
    with False show ?thesis by (simp add: run_unfold)
  qed
qed


subsection \<open>The write step\<close>

lemma write_pages_unchanged:
  "phase (write_pages X m ps s) = phase s"
  "documents (write_pages X m ps s) = documents s"
  "site_of (write_pages X m ps s) = site_of s"
  "pages (write_pages X m ps s) = pages s"
  by (induction ps arbitrary: s; simp add: Let_def)+

lemma write_pages_grows:
  "set (written s) \<subseteq> set (written (write_pages X m ps s))
   \<and> set (error_log s) \<subseteq> set (error_log (write_pages X m ps s))
   \<and> (error_log (write_pages X m ps s) = [] \<longrightarrow> error_log s = [])"
proof (induction ps arbitrary: s)
  case Nil
  show ?case by simp
next
  case (Cons p ps)
  show ?case
  proof (cases "page_path p \<in> set (map page_path (written s)) \<or> \<not> writable X (page_path p)")
    case True
    let ?s' = "s\<lparr>error_log := error_log s @ [(source_path (page_document p), WriteError)]\<rparr>"
    from Cons.IH [of ?s'] True show ?thesis
      by (cases m) (auto simp: Let_def)
  next
    case False
    let ?s' = "s\<lparr>output_tree := (output_tree s)(page_path p \<mapsto> html p),
                   written := written s @ [p]\<rparr>"
    from Cons.IH [of ?s'] False show ?thesis
      by auto
  qed
qed




lemma write_pages_previous_tree:
  "write_pages X m ps (s\<lparr>output_tree := t ++ output_tree s\<rparr>)
   = (write_pages X m ps s)\<lparr>output_tree := t ++ output_tree (write_pages X m ps s)\<rparr>"
proof (induction ps arbitrary: s)
  case Nil
  show ?case by simp
next
  case (Cons p ps)
  let ?u = "s\<lparr>output_tree := t ++ output_tree s\<rparr>"
  show ?case
  proof (cases "page_path p \<in> set (map page_path (written s)) \<or> \<not> writable X (page_path p)")
    case True
    let ?s' = "s\<lparr>error_log := error_log s @ [(source_path (page_document p), WriteError)]\<rparr>"
    let ?u' = "?u\<lparr>error_log := error_log ?u @ [(source_path (page_document p), WriteError)]\<rparr>"
    have u: "?u' = ?s'\<lparr>output_tree := t ++ output_tree ?s'\<rparr>"
      by (cases s) simp
    show ?thesis
    proof (cases m)
      case BestEffort
      from True have c: "page_path p \<in> set (map page_path (written ?u)) \<or> \<not> writable X (page_path p)"
        by simp
      have "write_pages X m (p # ps) ?u = write_pages X m ps ?u'"
        unfolding write_pages.simps Let_def using c BestEffort by (simp only: if_True build_mode.distinct if_False)
      also have "\<dots> = write_pages X m ps (?s'\<lparr>output_tree := t ++ output_tree ?s'\<rparr>)"
        by (simp only: u)
      also have "\<dots> = (write_pages X m ps ?s')\<lparr>output_tree := t ++ output_tree (write_pages X m ps ?s')\<rparr>"
        by (rule Cons.IH)
      also from True BestEffort have "write_pages X m ps ?s' = write_pages X m (p # ps) s"
        by (simp add: Let_def)
      finally show ?thesis .
    next
      case AbortOnError
      with True show ?thesis
        by (simp add: Let_def)
    qed
  next
    case False
    let ?s' = "s\<lparr>output_tree := (output_tree s)(page_path p \<mapsto> html p),
                   written := written s @ [p]\<rparr>"
    let ?u' = "?u\<lparr>output_tree := (output_tree ?u)(page_path p \<mapsto> html p),
                 written := written ?u @ [p]\<rparr>"
    have u: "?u' = ?s'\<lparr>output_tree := t ++ output_tree ?s'\<rparr>"
      by (cases s) simp
    from False have c: "\<not> (page_path p \<in> set (map page_path (written ?u)) \<or> \<not> writable X (page_path p))"
      by simp
    have "write_pages X m (p # ps) ?u = write_pages X m ps ?u'"
      unfolding write_pages.simps using c by (simp only: if_False)
    also have "\<dots> = write_pages X m ps (?s'\<lparr>output_tree := t ++ output_tree ?s'\<rparr>)"
      by (simp only: u)
    also have "\<dots> = (write_pages X m ps ?s')\<lparr>output_tree := t ++ output_tree (write_pages X m ps ?s')\<rparr>"
      by (rule Cons.IH)
    also from False have "write_pages X m ps ?s' = write_pages X m (p # ps) s"
      by simp
    finally show ?thesis .
  qed
qed

subsection \<open>Collecting results and errors\<close>

lemma collect_accounted:
  assumes "m = BestEffort \<or> snd (collect m f xs) = []"
  shows "\<forall>x \<in> set xs. (\<exists>y \<in> set (fst (collect m f xs)). f x = Inr y)
           \<or> (\<exists>e. (x, e) \<in> set (snd (collect m f xs)))"
  using assms
  by (induction xs) (auto split: sum.splits build_mode.splits if_splits)

lemma collect_results:
  "\<forall>y \<in> set (fst (collect m f xs)). \<exists>x \<in> set xs. f x = Inr y"
  by (induction xs) (auto split: sum.splits)

lemma collect_errors:
  "\<forall>entry \<in> set (snd (collect m f xs)). fst entry \<in> set xs \<and> f (fst entry) = Inl (snd entry)"
  by (induction xs) (auto split: sum.splits)

lemma collect_best_effort_length:
  "length (fst (collect BestEffort f xs)) + length (snd (collect BestEffort f xs)) = length xs"
  by (induction xs) (auto split: sum.splits)

subsection \<open>What a transition preserves\<close>

lemma render_document_page:
  "render_document X cfg templates sm d = Inr p \<Longrightarrow>
   page_document p = d \<and> page_path p = output_path d"
  by (auto simp: render_document_def split: sum.splits option.splits)

lemma advance_passes:
  "advance m errs nxt = nxt \<longleftrightarrow> nxt = Failed \<or> m = BestEffort \<or> errs = []"
  by (cases m) (auto simp: advance_def)

lemma chronological_site_model:
  "set (chronological (site_model cfg ds)) = set ds"
  "length (chronological (site_model cfg ds)) = length ds"
  "mset (chronological (site_model cfg ds)) = mset ds"
  by (simp_all add: site_model_def Let_def)

lemma step_site_of:
  assumes "phase s \<in> {Rendering, Writing, Done} \<longrightarrow> site_of s = site_model cfg (documents s)"
  shows "phase (step X cfg templates src s) \<in> {Rendering, Writing, Done} \<longrightarrow>
           site_of (step X cfg templates src s)
             = site_model cfg (documents (step X cfg templates src s))"
  using assms
  by (cases "phase s")
     (auto simp: step_def Let_def advance_def write_pages_unchanged split: if_splits)







lemma step_previous_tree:
  "step X cfg templates src (s\<lparr>output_tree := t ++ output_tree s\<rparr>)
   = (step X cfg templates src s)\<lparr>output_tree := t ++ output_tree (step X cfg templates src s)\<rparr>"
proof (cases "phase s")
  case Writing
  then show ?thesis
    by (simp add: step_def Let_def write_pages_previous_tree write_pages_unchanged)
qed (simp_all add: step_def Let_def)

lemma run_previous_tree:
  "run X cfg templates src (s\<lparr>output_tree := t ++ output_tree s\<rparr>)
   = (run X cfg templates src s)\<lparr>output_tree := t ++ output_tree (run X cfg templates src s)\<rparr>"
proof (induction X cfg templates src s rule: run.induct)
  case (1 X cfg templates src s)
  show ?case
  proof (cases "phase s = Done \<or> phase s = Failed")
    case True
    then show ?thesis by (simp add: run_final)
  next
    case False
    then have "run X cfg templates src (s\<lparr>output_tree := t ++ output_tree s\<rparr>)
                 = run X cfg templates src (step X cfg templates src (s\<lparr>output_tree := t ++ output_tree s\<rparr>))"
      by (simp add: run_unfold)
    also have "\<dots> = run X cfg templates src
                 ((step X cfg templates src s)\<lparr>output_tree := t ++ output_tree (step X cfg templates src s)\<rparr>)"
      by (simp only: step_previous_tree)
    also have "\<dots> = (run X cfg templates src (step X cfg templates src s))
                 \<lparr>output_tree := t ++ output_tree (run X cfg templates src (step X cfg templates src s))\<rparr>"
      using False by (intro "1.IH") simp
    also have "run X cfg templates src (step X cfg templates src s) = run X cfg templates src s"
      using False by (simp add: run_unfold)
    finally show ?thesis .
  qed
qed

lemma build_previous_tree:
  "build X cfg templates src previous
   = (build X cfg templates src Map.empty)
       \<lparr>output_tree := previous ++ output_tree (build X cfg templates src Map.empty)\<rparr>"
proof -
  have "initial_state cfg previous
          = (initial_state cfg Map.empty)
              \<lparr>output_tree := previous ++ output_tree (initial_state cfg Map.empty)\<rparr>"
    by (simp add: initial_state_def)
  then show ?thesis
    unfolding build_def by (simp only: run_previous_tree)
qed

subsection \<open>The best-effort pass, step by step\<close>

lemma collect_best_effort:
  "fst (collect BestEffort f xs) = concat (map (\<lambda>x. case f x of Inl e \<Rightarrow> [] | Inr y \<Rightarrow> [y]) xs)"
  "snd (collect BestEffort f xs) = concat (map (\<lambda>x. case f x of Inl e \<Rightarrow> [(x, e)] | Inr y \<Rightarrow> []) xs)"
  by (induction xs; simp split: sum.splits)+

lemma collect_all_right:
  assumes "\<forall>x \<in> set xs. \<exists>y. f x = Inr y"
  shows "snd (collect m f xs) = [] \<and> length (fst (collect m f xs)) = length xs
         \<and> map Inr (fst (collect m f xs)) = map f xs"
  using assms by (induction xs) (auto split: sum.splits)

lemma write_pages_best_effort_length:
  "length (written (write_pages X BestEffort ps s)) + length (error_log (write_pages X BestEffort ps s))
   = length (written s) + length (error_log s) + length ps"
proof (induction ps arbitrary: s)
  case Nil
  show ?case by simp
next
  case (Cons p ps)
  show ?case
  proof (cases "page_path p \<in> set (map page_path (written s)) \<or> \<not> writable X (page_path p)")
    case True
    let ?s' = "s\<lparr>error_log := error_log s @ [(source_path (page_document p), WriteError)]\<rparr>"
    from Cons.IH [of ?s'] True show ?thesis
      by (simp add: Let_def)
  next
    case False
    let ?s' = "s\<lparr>output_tree := (output_tree s)(page_path p \<mapsto> html p),
                   written := written s @ [p]\<rparr>"
    from Cons.IH [of ?s'] False show ?thesis
      by simp
  qed
qed

lemma write_pages_all_written:
  assumes "distinct (map page_path ps)"
    and "\<forall>p \<in> set ps. writable X (page_path p)"
    and "set (map page_path ps) \<inter> set (map page_path (written s)) = {}"
  shows "written (write_pages X m ps s) = written s @ ps
         \<and> error_log (write_pages X m ps s) = error_log s"
  using assms
proof (induction ps arbitrary: s)
  case Nil
  show ?case by simp
next
  case (Cons p ps)
  let ?s' = "s\<lparr>output_tree := (output_tree s)(page_path p \<mapsto> html p),
                 written := written s @ [p]\<rparr>"
  from Cons.prems have ok: "\<not> (page_path p \<in> set (map page_path (written s)) \<or> \<not> writable X (page_path p))"
    by auto
  have "distinct (map page_path ps)" and "\<forall>p \<in> set ps. writable X (page_path p)"
    and "set (map page_path ps) \<inter> set (map page_path (written ?s')) = {}"
    using Cons.prems by auto
  from Cons.IH [OF this] ok show ?case
    by simp
qed

lemma build_best_effort:
  assumes "mode cfg = BestEffort"
  shows "build X cfg templates src previous =
     (let l = collect BestEffort (load_document X) src;
          sm = site_model cfg (fst l);
          r = collect BestEffort (render_document X cfg templates sm) (chronological sm)
      in (write_pages X BestEffort (fst r)
            \<lparr> phase = Writing, documents = fst l, site_of = sm, pages = fst r,
              written = [], output_tree = previous,
              error_log = map (\<lambda>(f, e). (fst f, e)) (snd l)
                          @ map (\<lambda>(d, e). (source_path d, e)) (snd r) \<rparr>)
         \<lparr>phase := Done\<rparr>)"
  by (simp add: build_def initial_state_def run_unfold run_final step_def advance_def Let_def assms)

subsection \<open>The concrete site, built\<close>

lemma demo_build:
  "output_tree (build demo_externals (demo_config BestEffort) [''post.html''] demo_tree Map.empty)
     ''alpha.html'' = Some ''alpha''"
  "output_tree (build demo_externals (demo_config BestEffort) [''post.html''] demo_tree Map.empty)
     ''gamma.html'' = Some ''gamma''"
  "error_log (build demo_externals (demo_config BestEffort) [''post.html''] demo_tree Map.empty)
     = [(''b.md'', MalformedMetadata)]"
  "map (\<lambda>p. (source_path (page_document p), page_path p))
     (written (build demo_externals (demo_config BestEffort) [''post.html''] demo_tree Map.empty))
     = [(''a.md'', ''alpha.html''), (''c.md'', ''gamma.html'')]"
  by (simp_all add: build_best_effort demo_config_def demo_tree_def demo_externals_def
        load_document_def render_document_def resolve_template_def template_candidates_def
        site_model_def document_key_def Let_def)



subsection \<open>Building twice\<close>

lemma copy_assets_keeps:
  "written (copy_assets X m as taken s) = written s"
  "path \<in> set taken \<Longrightarrow> output_tree (copy_assets X m as taken s) path = output_tree s path"
  by (induction as arbitrary: taken s; simp add: Let_def; fastforce)+

lemma run_related:
  assumes "\<And>s s'. R s s' \<Longrightarrow> R (step X cfg templates src s) (step X cfg templates src' s')"
    and "\<And>s s'. R s s' \<Longrightarrow> phase s = phase s'"
    and "R s s'"
  shows "R (run X cfg templates src s) (run X cfg templates src' s')"
  using assms
proof (induction X cfg templates src s arbitrary: s' rule: run.induct)
  case (1 X cfg templates src s)
  from "1.prems"(2,3) have ph: "phase s' = phase s"
    by simp
  show ?case
  proof (cases "phase s = Done \<or> phase s = Failed")
    case True
    with ph "1.prems"(3) show ?thesis
      by (simp add: run_final)
  next
    case False
    have "R (step X cfg templates src s) (step X cfg templates src' s')"
      using "1.prems"(1,3) by blast
    with False "1.prems"(1,2)
    have "R (run X cfg templates src (step X cfg templates src s))
            (run X cfg templates src' (step X cfg templates src' s'))"
      by (intro "1.IH") simp_all
    with False ph show ?thesis
      by (simp add: run_unfold)
  qed
qed

lemma collect_no_errors_iff:
  "snd (collect m f xs) = [] \<longleftrightarrow> (\<forall>x \<in> set xs. \<exists>y. f x = Inr y)"
  by (induction xs) (auto split: sum.splits)

lemma collect_passing:
  assumes "m = BestEffort \<or> snd (collect m f xs) = []"
  shows "fst (collect m f xs) = concat (map (\<lambda>x. case f x of Inl e \<Rightarrow> [] | Inr y \<Rightarrow> [y]) xs)"
  using assms by (induction xs) (auto split: sum.splits if_splits)

lemma mset_concat_map:
  "mset (concat (map g xs)) = sum_mset (image_mset (\<lambda>x. mset (g x)) (mset xs))"
  by (induction xs) simp_all

lemma collect_discovery_order:
  assumes "mset xs = mset ys"
  shows "snd (collect m f xs) = [] \<longleftrightarrow> snd (collect m f ys) = []"
    and "m = BestEffort \<or> snd (collect m f xs) = [] \<Longrightarrow>
         mset (fst (collect m f xs)) = mset (fst (collect m f ys))"
proof -
  from assms have "set xs = set ys"
    by (rule mset_eq_setD)
  then show e: "snd (collect m f xs) = [] \<longleftrightarrow> snd (collect m f ys) = []"
    by (simp add: collect_no_errors_iff)
  assume p: "m = BestEffort \<or> snd (collect m f xs) = []"
  with e have p': "m = BestEffort \<or> snd (collect m f ys) = []"
    by blast
  show "mset (fst (collect m f xs)) = mset (fst (collect m f ys))"
    by (simp only: collect_passing [OF p] collect_passing [OF p'] mset_concat_map assms)
qed

lemma write_pages_agree:
  assumes "written s = written s'" and "output_tree s = output_tree s'"
  shows "written (write_pages X m ps s) = written (write_pages X m ps s')
         \<and> output_tree (write_pages X m ps s) = output_tree (write_pages X m ps s')
         \<and> (\<exists>new. error_log (write_pages X m ps s) = error_log s @ new
                    \<and> error_log (write_pages X m ps s') = error_log s' @ new)"
  using assms
proof (induction ps arbitrary: s s')
  case Nil
  then show ?case by simp
next
  case (Cons p ps)
  show ?case
  proof (cases "page_path p \<in> set (map page_path (written s)) \<or> \<not> writable X (page_path p)")
    case True
    let ?x = "(source_path (page_document p), WriteError)"
    let ?t = "s\<lparr>error_log := error_log s @ [?x]\<rparr>"
    let ?t' = "s'\<lparr>error_log := error_log s' @ [?x]\<rparr>"
    from True Cons.prems
    have c': "page_path p \<in> set (map page_path (written s')) \<or> \<not> writable X (page_path p)"
      by simp
    show ?thesis
    proof (cases m)
      case AbortOnError
      with True c' Cons.prems show ?thesis
        by (simp add: Let_def)
    next
      case BestEffort
      have "written ?t = written ?t'" and "output_tree ?t = output_tree ?t'"
        using Cons.prems by simp_all
      from Cons.IH [OF this] obtain new
        where w: "written (write_pages X m ps ?t) = written (write_pages X m ps ?t')"
          and o: "output_tree (write_pages X m ps ?t) = output_tree (write_pages X m ps ?t')"
          and e: "error_log (write_pages X m ps ?t) = error_log ?t @ new"
          and e': "error_log (write_pages X m ps ?t') = error_log ?t' @ new"
        by blast
      have u: "write_pages X m (p # ps) s = write_pages X m ps ?t"
        using True BestEffort by (simp add: Let_def)
      have u': "write_pages X m (p # ps) s' = write_pages X m ps ?t'"
        using c' BestEffort by (simp add: Let_def)
      from e e' have "error_log (write_pages X m ps ?t) = error_log s @ (?x # new)"
        and "error_log (write_pages X m ps ?t') = error_log s' @ (?x # new)"
        by simp_all
      with w o show ?thesis
        unfolding u u' by blast
    qed
  next
    case False
    let ?t = "s\<lparr>output_tree := (output_tree s)(page_path p \<mapsto> html p),
                  written := written s @ [p]\<rparr>"
    let ?t' = "s'\<lparr>output_tree := (output_tree s')(page_path p \<mapsto> html p),
                  written := written s' @ [p]\<rparr>"
    from False Cons.prems
    have c': "\<not> (page_path p \<in> set (map page_path (written s')) \<or> \<not> writable X (page_path p))"
      by simp
    have "written ?t = written ?t'" and "output_tree ?t = output_tree ?t'"
      using Cons.prems by simp_all
    from Cons.IH [OF this] obtain new
      where w: "written (write_pages X m ps ?t) = written (write_pages X m ps ?t')"
        and o: "output_tree (write_pages X m ps ?t) = output_tree (write_pages X m ps ?t')"
        and e: "error_log (write_pages X m ps ?t) = error_log ?t @ new"
        and e': "error_log (write_pages X m ps ?t') = error_log ?t' @ new"
      by blast
    have u: "write_pages X m (p # ps) s = write_pages X m ps ?t"
      using False by simp
    have u': "write_pages X m (p # ps) s' = write_pages X m ps ?t'"
      using c' by simp
    from e e' have "error_log (write_pages X m ps ?t) = error_log s @ new"
      and "error_log (write_pages X m ps ?t') = error_log s' @ new"
      by simp_all
    with w o show ?thesis
      unfolding u u' by blast
  qed
qed

lemma step_discovery_order:
  assumes m: "mset src = mset src'" and R: "same_outcome s s'"
  shows "same_outcome (step X cfg templates src s) (step X cfg templates src' s')"
proof (cases "phase s")
  case Idle
  with R show ?thesis
    by (simp add: same_outcome_def step_def)
next
  case Loading
  let ?r = "collect (mode cfg) (load_document X) src"
  let ?r' = "collect (mode cfg) (load_document X) src'"
  let ?errs = "error_log s @ map (\<lambda>(f, e). (fst f, e)) (snd ?r)"
  let ?errs' = "error_log s' @ map (\<lambda>(f, e). (fst f, e)) (snd ?r')"
  from R Loading have ph: "phase s' = Loading"
    by (simp add: same_outcome_def)
  from R have el: "error_log s = [] \<longleftrightarrow> error_log s' = []"
    by (simp add: same_outcome_def)
  have e: "?errs = [] \<longleftrightarrow> ?errs' = []"
    using el collect_discovery_order(1) [OF m, of "mode cfg" "load_document X"]
    by simp
  then have a: "advance (mode cfg) ?errs Modeling = advance (mode cfg) ?errs' Modeling"
    by (simp add: advance_def)
  have d: "mset (fst ?r) = mset (fst ?r')" if "advance (mode cfg) ?errs Modeling = Modeling"
  proof -
    from that have "mode cfg = BestEffort \<or> ?errs = []"
      by (simp add: advance_passes)
    then have "mode cfg = BestEffort \<or> snd ?r = []"
      by auto
    then show ?thesis
      by (rule collect_discovery_order(2) [OF m])
  qed
  have 1: "step X cfg templates src s
             = s\<lparr>documents := fst ?r, error_log := ?errs,
                  phase := advance (mode cfg) ?errs Modeling\<rparr>"
    using Loading by (simp add: step_def Let_def)
  have 2: "step X cfg templates src' s'
             = s'\<lparr>documents := fst ?r', error_log := ?errs',
                  phase := advance (mode cfg) ?errs' Modeling\<rparr>"
    using ph by (simp add: step_def Let_def)
  from R have eq: "site_of s = site_of s'" "pages s = pages s'" "written s = written s'"
    "output_tree s = output_tree s'"
    by (simp_all add: same_outcome_def)
  from eq e a d show ?thesis
    unfolding 1 2 by (simp add: same_outcome_def)
next
  case Modeling
  from R have eq: "phase s = phase s'" "pages s = pages s'" "written s = written s'"
    "output_tree s = output_tree s'" "error_log s = [] \<longleftrightarrow> error_log s' = []"
    by (simp_all add: same_outcome_def)
  from eq(1) Modeling have ph: "phase s' = Modeling"
    by simp
  from R Modeling have "mset (documents s) = mset (documents s')"
    by (simp add: same_outcome_def)
  then have sm: "site_model cfg (documents s) = site_model cfg (documents s')"
    by (rule site_model_permutation)
  have 1: "step X cfg templates src s
             = s\<lparr>site_of := site_model cfg (documents s'), phase := Rendering\<rparr>"
    using Modeling sm by (simp add: step_def)
  have 2: "step X cfg templates src' s'
             = s'\<lparr>site_of := site_model cfg (documents s'), phase := Rendering\<rparr>"
    using ph by (simp add: step_def)
  from eq(2-5) show ?thesis
    unfolding 1 2 by (simp add: same_outcome_def)
next
  case Rendering
  from R have eq: "phase s = phase s'" "site_of s = site_of s'" "written s = written s'"
    "output_tree s = output_tree s'" "error_log s = [] \<longleftrightarrow> error_log s' = []"
    by (simp_all add: same_outcome_def)
  from eq(1) Rendering have ph: "phase s' = Rendering"
    by simp
  let ?r = "collect (mode cfg) (render_document X cfg templates (site_of s'))
              (chronological (site_of s'))"
  have 1: "step X cfg templates src s
             = s\<lparr>pages := fst ?r,
                  error_log := error_log s @ map (\<lambda>(d, e). (source_path d, e)) (snd ?r),
                  phase := advance (mode cfg)
                    (error_log s @ map (\<lambda>(d, e). (source_path d, e)) (snd ?r)) Writing\<rparr>"
    using Rendering eq(2) by (simp add: step_def Let_def)
  have 2: "step X cfg templates src' s'
             = s'\<lparr>pages := fst ?r,
                  error_log := error_log s' @ map (\<lambda>(d, e). (source_path d, e)) (snd ?r),
                  phase := advance (mode cfg)
                    (error_log s' @ map (\<lambda>(d, e). (source_path d, e)) (snd ?r)) Writing\<rparr>"
    using ph by (simp add: step_def Let_def)
  from eq(2-5) show ?thesis
    unfolding 1 2 by (simp add: same_outcome_def advance_def)
next
  case Writing
  from R have eq: "phase s = phase s'" "site_of s = site_of s'" "pages s = pages s'"
    and w: "written s = written s'" and o: "output_tree s = output_tree s'"
    and el: "error_log s = [] \<longleftrightarrow> error_log s' = []"
    by (simp_all add: same_outcome_def)
  from eq(1) Writing have ph: "phase s' = Writing"
    by simp
  let ?w = "write_pages X (mode cfg) (pages s) s"
  let ?w' = "write_pages X (mode cfg) (pages s) s'"
  from write_pages_agree [OF w o, of X "mode cfg" "pages s"] obtain new
    where ww: "written ?w = written ?w'" and oo: "output_tree ?w = output_tree ?w'"
      and e: "error_log ?w = error_log s @ new" and e': "error_log ?w' = error_log s' @ new"
    by blast
  from el e e' have ee: "error_log ?w = [] \<longleftrightarrow> error_log ?w' = []"
    by simp
  then have a: "advance (mode cfg) (error_log ?w) Done = advance (mode cfg) (error_log ?w') Done"
    by (simp add: advance_def)
  have 1: "step X cfg templates src s = ?w\<lparr>phase := advance (mode cfg) (error_log ?w) Done\<rparr>"
    using Writing by (simp add: step_def Let_def)
  have 2: "step X cfg templates src' s' = ?w'\<lparr>phase := advance (mode cfg) (error_log ?w') Done\<rparr>"
    using ph eq(3) by (simp add: step_def Let_def)
  have "advance (mode cfg) (error_log ?w') Done \<noteq> Modeling"
    by (simp add: advance_def)
  with eq(2,3) ww oo ee a show ?thesis
    unfolding 1 2 by (simp add: same_outcome_def write_pages_unchanged)
next
  case Done
  with R show ?thesis
    by (simp add: same_outcome_def step_def)
next
  case Failed
  with R show ?thesis
    by (simp add: same_outcome_def step_def)
qed

lemma build_discovery_order:
  assumes "mset src = mset src'"
  shows "same_outcome (build X cfg templates src previous) (build X cfg templates src' previous)"
  unfolding build_def
proof (rule run_related [where R = same_outcome])
  show "same_outcome (step X cfg templates src s) (step X cfg templates src' s')"
    if "same_outcome s s'" for s s'
    using assms that by (rule step_discovery_order)
  show "phase s = phase s'" if "same_outcome s s'" for s s'
    using that by (simp add: same_outcome_def)
  show "same_outcome (initial_state cfg previous) (initial_state cfg previous)"
    by (simp add: same_outcome_def)
qed

lemma copy_assets_tree_shift:
  assumes "output_tree s' = t ++ output_tree s"
  shows "output_tree (copy_assets X m as taken s') = t ++ output_tree (copy_assets X m as taken s)"
  using assms
proof (induction as arbitrary: taken s s')
  case Nil
  then show ?case by simp
next
  case (Cons a as)
  show ?case
  proof (cases "fst a \<in> set taken \<or> \<not> writable X (fst a)")
    case True
    let ?u = "s\<lparr>error_log := error_log s @ [(fst a, WriteError)]\<rparr>"
    let ?u' = "s'\<lparr>error_log := error_log s' @ [(fst a, WriteError)]\<rparr>"
    have "output_tree ?u' = t ++ output_tree ?u"
      using Cons.prems by simp
    from Cons.IH [OF this] True Cons.prems show ?thesis
      by (cases m) (simp_all add: Let_def)
  next
    case False
    let ?u = "s\<lparr>output_tree := (output_tree s)(fst a \<mapsto> snd a)\<rparr>"
    let ?u' = "s'\<lparr>output_tree := (output_tree s')(fst a \<mapsto> snd a)\<rparr>"
    have "output_tree ?u' = t ++ output_tree ?u"
      using Cons.prems by simp
    from Cons.IH [OF this] False show ?thesis
      by simp
  qed
qed

lemma build_site_previous_tree:
  "output_tree (build_site X cfg templates src assets previous)
     = previous ++ output_tree (build_site X cfg templates src assets Map.empty)"
proof -
  let ?b = "build X cfg templates src Map.empty"
  let ?p = "build X cfg templates src previous"
  have p: "?p = ?b\<lparr>output_tree := previous ++ output_tree ?b\<rparr>"
    by (rule build_previous_tree)
  then have ph: "phase ?p = phase ?b" and w: "written ?p = written ?b"
    and o: "output_tree ?p = previous ++ output_tree ?b"
    by (metis build_state.select_convs(1) build_state.surjective build_state.update_convs(6),
        metis build_state.select_convs(5) build_state.surjective build_state.update_convs(6),
        metis build_state.select_convs(6) build_state.surjective build_state.update_convs(6))
  show ?thesis
  proof (cases "phase ?b = Done")
    case True
    with ph w copy_assets_tree_shift [OF o, of X "mode cfg" "sort assets" "map page_path (written ?b)"]
    show ?thesis
      by (simp add: build_site_def Let_def)
  next
    case False
    with ph o show ?thesis
      by (simp add: build_site_def Let_def)
  qed
qed

lemma copy_assets_agree:
  assumes "output_tree s = output_tree s'"
  shows "output_tree (copy_assets X m as taken s) = output_tree (copy_assets X m as taken s')
         \<and> (\<exists>new. error_log (copy_assets X m as taken s) = error_log s @ new
                    \<and> error_log (copy_assets X m as taken s') = error_log s' @ new)"
  using assms
proof (induction as arbitrary: taken s s')
  case Nil
  then show ?case by simp
next
  case (Cons a as)
  show ?case
  proof (cases "fst a \<in> set taken \<or> \<not> writable X (fst a)")
    case True
    let ?x = "(fst a, WriteError)"
    let ?u = "s\<lparr>error_log := error_log s @ [?x]\<rparr>"
    let ?u' = "s'\<lparr>error_log := error_log s' @ [?x]\<rparr>"
    show ?thesis
    proof (cases m)
      case AbortOnError
      with True Cons.prems show ?thesis
        by (simp add: Let_def)
    next
      case BestEffort
      have "output_tree ?u = output_tree ?u'"
        using Cons.prems by simp
      from Cons.IH [OF this, of taken] obtain new
        where o: "output_tree (copy_assets X m as taken ?u) = output_tree (copy_assets X m as taken ?u')"
          and e: "error_log (copy_assets X m as taken ?u) = error_log ?u @ new"
          and e': "error_log (copy_assets X m as taken ?u') = error_log ?u' @ new"
        by blast
      have u: "copy_assets X m (a # as) taken s = copy_assets X m as taken ?u"
        and u': "copy_assets X m (a # as) taken s' = copy_assets X m as taken ?u'"
        using True BestEffort by (simp_all add: Let_def)
      from e e' have "error_log (copy_assets X m as taken ?u) = error_log s @ (?x # new)"
        and "error_log (copy_assets X m as taken ?u') = error_log s' @ (?x # new)"
        by simp_all
      with o show ?thesis
        unfolding u u' by blast
    qed
  next
    case False
    let ?u = "s\<lparr>output_tree := (output_tree s)(fst a \<mapsto> snd a)\<rparr>"
    let ?u' = "s'\<lparr>output_tree := (output_tree s')(fst a \<mapsto> snd a)\<rparr>"
    have "output_tree ?u = output_tree ?u'"
      using Cons.prems by simp
    from Cons.IH [OF this, of "fst a # taken"] obtain new
      where o: "output_tree (copy_assets X m as (fst a # taken) ?u)
                  = output_tree (copy_assets X m as (fst a # taken) ?u')"
        and e: "error_log (copy_assets X m as (fst a # taken) ?u) = error_log ?u @ new"
        and e': "error_log (copy_assets X m as (fst a # taken) ?u') = error_log ?u' @ new"
      by blast
    have u: "copy_assets X m (a # as) taken s = copy_assets X m as (fst a # taken) ?u"
      and u': "copy_assets X m (a # as) taken s' = copy_assets X m as (fst a # taken) ?u'"
      using False by simp_all
    from e e' have "error_log (copy_assets X m as (fst a # taken) ?u) = error_log s @ new"
      and "error_log (copy_assets X m as (fst a # taken) ?u') = error_log s' @ new"
      by simp_all
    with o show ?thesis
      unfolding u u' by blast
  qed
qed

lemma copy_assets_phase: "phase (copy_assets X m as taken s) = phase s"
  by (induction as arbitrary: taken s) (simp_all add: Let_def)

lemma build_site_discovery_order:
  assumes "mset src = mset src'" and "mset assets = mset assets'"
  shows "output_tree (build_site X cfg templates src assets previous)
           = output_tree (build_site X cfg templates src' assets' previous)
         \<and> phase (build_site X cfg templates src assets previous)
           = phase (build_site X cfg templates src' assets' previous)
         \<and> written (build_site X cfg templates src assets previous)
           = written (build_site X cfg templates src' assets' previous)"
proof -
  let ?s = "build X cfg templates src previous"
  let ?s' = "build X cfg templates src' previous"
  from build_discovery_order [OF assms(1), of X cfg templates previous]
  have ph: "phase ?s = phase ?s'" and w: "written ?s = written ?s'"
    and o: "output_tree ?s = output_tree ?s'" and e: "error_log ?s = [] \<longleftrightarrow> error_log ?s' = []"
    by (simp_all add: same_outcome_def)
  have srt: "sort assets' = sort assets"
    by (rule properties_for_sort) (simp_all add: assms(2))
  show ?thesis
  proof (cases "phase ?s = Done")
    case False
    with ph w o show ?thesis
      by (simp add: build_site_def Let_def)
  next
    case True
    let ?c = "copy_assets X (mode cfg) (sort assets) (map page_path (written ?s)) ?s"
    let ?c' = "copy_assets X (mode cfg) (sort assets) (map page_path (written ?s)) ?s'"
    from copy_assets_agree [OF o, of X "mode cfg" "sort assets" "map page_path (written ?s)"]
    obtain new where oo: "output_tree ?c = output_tree ?c'"
      and ee: "error_log ?c = error_log ?s @ new" and ee': "error_log ?c' = error_log ?s' @ new"
      by blast
    from e ee ee' have "error_log ?c = [] \<longleftrightarrow> error_log ?c' = []"
      by simp
    then have a: "advance (mode cfg) (error_log ?c) Done = advance (mode cfg) (error_log ?c') Done"
      by (simp add: advance_def)
    have 1: "build_site X cfg templates src assets previous
               = ?c\<lparr>phase := advance (mode cfg) (error_log ?c) Done\<rparr>"
      using True by (simp add: build_site_def Let_def)
    have 2: "build_site X cfg templates src' assets' previous
               = ?c'\<lparr>phase := advance (mode cfg) (error_log ?c') Done\<rparr>"
      using True ph w srt by (simp add: build_site_def Let_def)
    from oo a w show ?thesis
      unfolding 1 2 by (simp add: copy_assets_keeps)
  qed
qed

text \<open>
  Claim C2. Running the pipeline a second time over the same source tree, on top of
  the output tree the first run left, produces the same output tree again, for every
  source tree and whatever was in the output directory before the first run. The
  output tree does not depend on the order in which a run discovers the files either:
  two runs over the same documents and static assets, discovered in any two orders,
  produce the same output tree, write the same pages and end in the same state of the
  state machine, the second run on top of the output of the first included.
\<close>

theorem build_twice_same_output:
  "output_tree
     (build_site X cfg templates src assets
        (output_tree (build_site X cfg templates src assets previous)))
     = output_tree (build_site X cfg templates src assets previous)
   \<and> (mset src = mset src' \<and> mset assets = mset assets' \<longrightarrow>
        output_tree (build_site X cfg templates src' assets' previous)
          = output_tree (build_site X cfg templates src assets previous)
        \<and> output_tree
            (build_site X cfg templates src' assets'
               (output_tree (build_site X cfg templates src assets previous)))
          = output_tree (build_site X cfg templates src assets previous)
        \<and> written (build_site X cfg templates src' assets' previous)
          = written (build_site X cfg templates src assets previous)
        \<and> phase (build_site X cfg templates src' assets' previous)
          = phase (build_site X cfg templates src assets previous))"
proof -
  let ?w = "output_tree (build_site X cfg templates src assets Map.empty)"
  have first: "output_tree (build_site X cfg templates src assets previous) = previous ++ ?w"
    by (rule build_site_previous_tree)
  have idem: "(previous ++ ?w) ++ ?w = previous ++ ?w"
    by (rule ext) (simp add: map_add_def split: option.splits)
  have again: "output_tree (build_site X cfg templates src' assets' (previous ++ ?w)) = previous ++ ?w"
    if "mset src = mset src'" "mset assets = mset assets'" for src' assets'
  proof -
    have "output_tree (build_site X cfg templates src' assets' (previous ++ ?w))
            = (previous ++ ?w) ++ output_tree (build_site X cfg templates src' assets' Map.empty)"
      by (rule build_site_previous_tree)
    also have "output_tree (build_site X cfg templates src' assets' Map.empty) = ?w"
      using build_site_discovery_order [OF that, of X cfg templates Map.empty] by simp
    finally show ?thesis
      by (simp only: idem)
  qed
  have same: "output_tree (build_site X cfg templates src' assets' previous) = previous ++ ?w"
    "written (build_site X cfg templates src' assets' previous)
       = written (build_site X cfg templates src assets previous)"
    "phase (build_site X cfg templates src' assets' previous)
       = phase (build_site X cfg templates src assets previous)"
    if "mset src = mset src'" "mset assets = mset assets'"
    using build_site_discovery_order [OF that, of X cfg templates previous] first by simp_all
  from again [of src assets] again same show ?thesis
    unfolding first by simp
qed

lemma demo_site_build:
  "phase (build_site demo_externals (demo_config BestEffort) [''post.html''] demo_tree demo_assets
     Map.empty) = Done"
  "output_tree (build_site demo_externals (demo_config BestEffort) [''post.html''] demo_tree
     demo_assets Map.empty) ''alpha.html'' = Some ''alpha''"
  "output_tree (build_site demo_externals (demo_config BestEffort) [''post.html''] demo_tree
     demo_assets Map.empty) ''gamma.html'' = Some ''gamma''"
  "output_tree (build_site demo_externals (demo_config BestEffort) [''post.html''] demo_tree
     demo_assets Map.empty) ''style.css'' = Some ''css''"
  "output_tree (build_site demo_externals (demo_config BestEffort) [''post.html''] demo_tree
     demo_assets Map.empty) ''logo.png'' = Some ''png''"
  by (simp_all add: build_site_def build_best_effort demo_config_def demo_tree_def
        demo_assets_def demo_externals_def load_document_def render_document_def
        resolve_template_def template_candidates_def site_model_def document_key_def
        advance_def write_pages_unchanged Let_def)

theorem build_twice_same_output_witness:
  "mset demo_tree = mset (rev demo_tree)
   \<and> mset demo_assets = mset (rev demo_assets)
   \<and> output_tree (build_site demo_externals (demo_config BestEffort) [''post.html''] demo_tree
         demo_assets Map.empty) ''alpha.html'' = Some ''alpha''
   \<and> output_tree (build_site demo_externals (demo_config BestEffort) [''post.html''] demo_tree
         demo_assets Map.empty) ''style.css'' = Some ''css''
   \<and> output_tree (build_site demo_externals (demo_config BestEffort) [''post.html'']
         (rev demo_tree) (rev demo_assets) Map.empty)
       = output_tree (build_site demo_externals (demo_config BestEffort) [''post.html''] demo_tree
           demo_assets Map.empty)
   \<and> output_tree (build_site demo_externals (demo_config BestEffort) [''post.html'']
         (rev demo_tree) (rev demo_assets)
         (output_tree (build_site demo_externals (demo_config BestEffort) [''post.html''] demo_tree
            demo_assets Map.empty)))
       = output_tree (build_site demo_externals (demo_config BestEffort) [''post.html''] demo_tree
           demo_assets Map.empty)
   \<and> output_tree (build_site demo_externals (demo_config BestEffort) [''post.html'']
         (rev demo_tree) (rev demo_assets) Map.empty) ''gamma.html'' = Some ''gamma''"
proof -
  have a: "mset demo_tree = mset (rev demo_tree)"
    and b: "mset demo_assets = mset (rev demo_assets)"
    by simp_all
  note all = build_twice_same_output
    [where X = demo_externals and cfg = "demo_config BestEffort" and templates = "[''post.html'']"
       and src = demo_tree and assets = demo_assets and previous = Map.empty
       and src' = "rev demo_tree" and assets' = "rev demo_assets"]
  from all [THEN conjunct2, THEN mp, OF conjI [OF a b]]
  have c: "output_tree (build_site demo_externals (demo_config BestEffort) [''post.html'']
         (rev demo_tree) (rev demo_assets) Map.empty)
       = output_tree (build_site demo_externals (demo_config BestEffort) [''post.html''] demo_tree
           demo_assets Map.empty)"
    and d: "output_tree (build_site demo_externals (demo_config BestEffort) [''post.html'']
         (rev demo_tree) (rev demo_assets)
         (output_tree (build_site demo_externals (demo_config BestEffort) [''post.html''] demo_tree
            demo_assets Map.empty)))
       = output_tree (build_site demo_externals (demo_config BestEffort) [''post.html''] demo_tree
           demo_assets Map.empty)"
    by simp_all
  from c have e: "output_tree (build_site demo_externals (demo_config BestEffort) [''post.html'']
         (rev demo_tree) (rev demo_assets) Map.empty) ''gamma.html'' = Some ''gamma''"
    by (simp only: demo_site_build)
  from a b c d e demo_site_build(2,4) show ?thesis
    by (intro conjI) assumption+
qed

subsection \<open>Loader errors and the rest of the pass\<close>

lemma map_through_Inr:
  assumes "map Inr ps = map f ds" and "\<And>d p. f d = Inr p \<Longrightarrow> g p = h d"
  shows "map g ps = map h ds"
  using assms
proof (induction ds arbitrary: ps)
  case Nil
  then show ?case by simp
next
  case (Cons d ds)
  then obtain p ps' where "ps = p # ps'" by (cases ps) auto
  with Cons show ?case by auto
qed

lemma clean_file_loads:
  assumes "clean_file X cfg templates f"
  obtains d where "load_document X f = Inr d" and "writable X (output_path d)"
    and "\<And>sm. \<exists>p. render_document X cfg templates sm d = Inr p"
  using assms
  by (auto simp: clean_file_def render_document_def split: sum.splits option.splits)

lemma planned_paths_of_clean:
  assumes "\<forall>f \<in> set src. clean_file X cfg templates f \<or> (\<exists>e. load_document X f = Inl e)"
  shows "map (planned_path X) (filter (clean_file X cfg templates) src)
         = map (\<lambda>d. Some (output_path d))
             (concat (map (\<lambda>f. case load_document X f of Inl e \<Rightarrow> [] | Inr d \<Rightarrow> [d]) src))"
  using assms
proof (induction src)
  case Nil
  show ?case by simp
next
  case (Cons f src)
  show ?case
  proof (cases "clean_file X cfg templates f")
    case True
    then obtain d where "load_document X f = Inr d"
      by (rule clean_file_loads)
    with True Cons show ?thesis
      by (simp add: planned_path_def)
  next
    case False
    with Cons.prems obtain e where "load_document X f = Inl e"
      by auto
    with False Cons show ?thesis
      by simp
  qed
qed

lemma clean_tree_build:
  assumes be: "mode cfg = BestEffort"
    and cl: "\<forall>f \<in> set src. clean_file X cfg templates f \<or> (\<exists>e. load_document X f = Inl e)"
    and di: "distinct (map (planned_path X) (filter (clean_file X cfg templates) src))"
  shows "map page_document (written (build X cfg templates src previous))
           = sort_key document_key
               (concat (map (\<lambda>f. case load_document X f of Inl e \<Rightarrow> [] | Inr d \<Rightarrow> [d]) src))
         \<and> error_log (build X cfg templates src previous)
           = concat (map (\<lambda>f. case load_document X f of Inl e \<Rightarrow> [(fst f, e)] | Inr d \<Rightarrow> []) src)"
proof -
  let ?l = "collect BestEffort (load_document X) src"
  let ?docs = "concat (map (\<lambda>f. case load_document X f of Inl e \<Rightarrow> [] | Inr d \<Rightarrow> [d]) src)"
  let ?sm = "site_model cfg (fst ?l)"
  let ?f = "render_document X cfg templates ?sm"
  let ?r = "collect BestEffort ?f (chronological ?sm)"
  let ?errs = "map (\<lambda>(f, e). (fst f, e)) (snd ?l) @ map (\<lambda>(d, e). (source_path d, e)) (snd ?r)"
  let ?s4 = "\<lparr> phase = Writing, documents = fst ?l, site_of = ?sm, pages = fst ?r,
               written = [], output_tree = previous, error_log = ?errs \<rparr>"
  have docs: "fst ?l = ?docs"
    by (rule collect_best_effort)
  have from_clean: "\<exists>f \<in> set src. load_document X f = Inr d \<and> clean_file X cfg templates f"
    if "d \<in> set (fst ?l)" for d
  proof -
    from that collect_results [of BestEffort "load_document X" src]
    obtain f where "f \<in> set src" and "load_document X f = Inr d"
      by blast
    with cl show ?thesis by force
  qed
  have chron: "chronological ?sm = sort_key document_key (fst ?l)"
    by (simp add: site_model_def Let_def)
  have renders: "\<forall>d \<in> set (chronological ?sm). \<exists>p. ?f d = Inr p"
  proof
    fix d
    assume "d \<in> set (chronological ?sm)"
    then have "d \<in> set (fst ?l)"
      by (simp add: chronological_site_model)
    then obtain f where "load_document X f = Inr d" and "clean_file X cfg templates f"
      using from_clean by blast
    then show "\<exists>p. ?f d = Inr p"
      by (metis clean_file_loads sum.inject(2))
  qed
  from collect_all_right [OF renders]
  have no_err: "snd ?r = []" and through: "map Inr (fst ?r) = map ?f (chronological ?sm)"
    by simp_all
  have pd: "map page_document (fst ?r) = chronological ?sm"
    using map_through_Inr [OF through, of page_document "\<lambda>d. d"] render_document_page
    by simp
  have pp: "map page_path (fst ?r) = map output_path (chronological ?sm)"
    using map_through_Inr [OF through, of page_path output_path] render_document_page
    by blast
  have "distinct (map (\<lambda>d. Some (output_path d)) ?docs)"
    using di by (simp only: planned_paths_of_clean [OF cl])
  then have "distinct (map output_path ?docs)"
    by (simp add: distinct_map inj_on_def)
  moreover have "mset (map output_path (chronological ?sm)) = mset (map output_path ?docs)"
    by (simp add: docs chronological_site_model)
  ultimately have "distinct (map output_path (chronological ?sm))"
    by (metis mset_eq_imp_distinct_iff)
  with pp have d1: "distinct (map page_path (fst ?r))"
    by simp
  have d2: "\<forall>p \<in> set (fst ?r). writable X (page_path p)"
  proof
    fix p
    assume "p \<in> set (fst ?r)"
    with collect_results [of BestEffort ?f "chronological ?sm"]
    obtain d where "d \<in> set (chronological ?sm)" and "?f d = Inr p"
      by blast
    then have d: "d \<in> set (fst ?l)" and "?f d = Inr p"
      by (simp_all add: chronological_site_model)
    then have "page_path p = output_path d"
      using render_document_page by blast
    moreover from d obtain f where "load_document X f = Inr d" and "clean_file X cfg templates f"
      using from_clean by blast
    then have "writable X (output_path d)"
      by (metis clean_file_loads sum.inject(2))
    ultimately show "writable X (page_path p)"
      by simp
  qed
  have d3: "set (map page_path (fst ?r)) \<inter> set (map page_path (written ?s4)) = {}"
    by simp
  from write_pages_all_written [OF d1 d2 d3, of BestEffort]
  have w: "written (write_pages X BestEffort (fst ?r) ?s4) = fst ?r"
    and e: "error_log (write_pages X BestEffort (fst ?r) ?s4) = ?errs"
    by simp_all
  have le: "map (\<lambda>(f, e). (fst f, e)) (snd ?l)
              = concat (map (\<lambda>f. case load_document X f of Inl e \<Rightarrow> [(fst f, e)] | Inr d \<Rightarrow> []) src)"
    unfolding collect_best_effort
    by (induction src) (auto split: sum.splits)
  have fin: "build X cfg templates src previous
               = (write_pages X BestEffort (fst ?r) ?s4)\<lparr>phase := Done\<rparr>"
    using build_best_effort [OF be, of X templates src previous]
    by (simp only: Let_def)
  show ?thesis
    unfolding fin using w e pd docs le no_err chron by simp
qed

lemma only_malformed_errors:
  assumes "\<forall>f \<in> set src. malformed X f \<or> (\<exists>d. load_document X f = Inr d)"
  shows "concat (map (\<lambda>f. case load_document X f of Inl e \<Rightarrow> [(fst f, e)] | Inr d \<Rightarrow> []) src)
           = map (\<lambda>f. (fst f, MalformedMetadata)) (filter (malformed X) src)
         \<and> length (concat (map (\<lambda>f. case load_document X f of Inl e \<Rightarrow> [] | Inr d \<Rightarrow> [d]) src))
           = length (filter (\<lambda>f. \<not> malformed X f) src)"
  using assms by (induction src) (auto simp: malformed_def split: sum.splits)

text \<open>
  Claim C3, as stated, fails in the configured mode that aborts on any error: there a
  source tree of three documents of which exactly one is malformed ends in \<open>Failed\<close>,
  not in \<open>Done\<close>, and with no page written.
\<close>
theorem abort_mode_counterexample:
  "length demo_tree = 3
   \<and> filter (malformed demo_externals) demo_tree = [(''b.md'', Source_text ''---'')]
   \<and> filter (clean_file demo_externals (demo_config AbortOnError) [''post.html'']) demo_tree
       = [(''a.md'', Source_text ''alpha''), (''c.md'', Source_text ''gamma'')]
   \<and> mode (demo_config AbortOnError) = AbortOnError
   \<and> phase (build demo_externals (demo_config AbortOnError) [''post.html''] demo_tree Map.empty)
       = Failed
   \<and> written (build demo_externals (demo_config AbortOnError) [''post.html''] demo_tree Map.empty)
       = []"
  by (simp add: demo_tree_def malformed_def load_document_def demo_externals_def demo_config_def
        clean_file_def resolve_template_def template_candidates_def
        build_def initial_state_def run_unfold run_final step_def advance_def Let_def)

text \<open>
  Claim C3, amended. In the default best-effort mode, errors of ContentLoader are
  recorded per file and never abort the pass: the build ends in \<open>Done\<close>, every
  source file ends up as exactly one written page or one recorded error, every
  document that loads is passed on, and every loader error is in the summary under
  the path of its file. For a source tree of three documents in which exactly one file
  has a malformed metadata block and the other two go through cleanly to different
  output paths, the build writes exactly two pages, records exactly one error, a
  \<open>MalformedMetadata\<close> for the malformed file, and reports overall-success = false.
\<close>
theorem loader_errors_best_effort:
  assumes be: "mode cfg = BestEffort"
  shows "phase (build X cfg templates src previous) = Done
   \<and> length (written (build X cfg templates src previous))
       + length (error_log (build X cfg templates src previous)) = length src
   \<and> documents (build X cfg templates src previous)
       = concat (map (\<lambda>f. case load_document X f of Inl e \<Rightarrow> [] | Inr d \<Rightarrow> [d]) src)
   \<and> (\<forall>f \<in> set src. \<forall>e. load_document X f = Inl e \<longrightarrow>
         (fst f, e) \<in> set (error_log (build X cfg templates src previous)))
   \<and> (length src = 3 \<and> length (filter (malformed X) src) = 1
        \<and> (\<forall>f \<in> set src. \<not> malformed X f \<longrightarrow> clean_file X cfg templates f)
        \<and> distinct (map (planned_path X) (filter (clean_file X cfg templates) src))
      \<longrightarrow> length (written (build X cfg templates src previous)) = 2
          \<and> length (error_log (build X cfg templates src previous)) = 1
          \<and> (\<exists>f \<in> set src. malformed X f
                \<and> error_log (build X cfg templates src previous) = [(fst f, MalformedMetadata)])
          \<and> error_count MalformedMetadata (build X cfg templates src previous) = 1
          \<and> \<not> overall_success (build X cfg templates src previous))"
proof -
  let ?fin = "build X cfg templates src previous"
  let ?l = "collect BestEffort (load_document X) src"
  let ?sm = "site_model cfg (fst ?l)"
  let ?r = "collect BestEffort (render_document X cfg templates ?sm) (chronological ?sm)"
  let ?errs = "map (\<lambda>(f, e). (fst f, e)) (snd ?l) @ map (\<lambda>(d, e). (source_path d, e)) (snd ?r)"
  let ?s4 = "\<lparr> phase = Writing, documents = fst ?l, site_of = ?sm, pages = fst ?r,
               written = [], output_tree = previous, error_log = ?errs \<rparr>"
  let ?w = "write_pages X BestEffort (fst ?r) ?s4"
  have fin: "?fin = ?w\<lparr>phase := Done\<rparr>"
    using build_best_effort [OF be, of X templates src previous]
    by (simp only: Let_def)
  have a: "phase ?fin = Done"
    unfolding fin by simp
  have "length (written ?w) + length (error_log ?w) = length (fst ?r) + length ?errs"
    using write_pages_best_effort_length [of X "fst ?r" ?s4] by simp
  also have "\<dots> = length (fst ?l) + length (snd ?l)"
    using collect_best_effort_length [of "render_document X cfg templates ?sm" "chronological ?sm"]
    by (simp add: chronological_site_model)
  also have "\<dots> = length src"
    by (rule collect_best_effort_length)
  finally have b: "length (written ?fin) + length (error_log ?fin) = length src"
    unfolding fin by simp
  have c: "documents ?fin
             = concat (map (\<lambda>f. case load_document X f of Inl e \<Rightarrow> [] | Inr d \<Rightarrow> [d]) src)"
    unfolding fin by (simp add: write_pages_unchanged collect_best_effort)
  have d: "\<forall>f \<in> set src. \<forall>e. load_document X f = Inl e \<longrightarrow> (fst f, e) \<in> set (error_log ?fin)"
  proof (intro ballI allI impI)
    fix f e
    assume f: "f \<in> set src" and l: "load_document X f = Inl e"
    from collect_accounted [of BestEffort "load_document X" src] f l
    obtain e' where e': "(f, e') \<in> set (snd ?l)"
      by auto
    with collect_errors [of BestEffort "load_document X" src] l have "e' = e"
      by fastforce
    with e' have "(fst f, e) \<in> set ?errs"
      by force
    with write_pages_grows [of ?s4 X BestEffort "fst ?r"] show "(fst f, e) \<in> set (error_log ?fin)"
      unfolding fin by auto
  qed
  have e: "length (written ?fin) = 2 \<and> length (error_log ?fin) = 1
          \<and> (\<exists>f \<in> set src. malformed X f \<and> error_log ?fin = [(fst f, MalformedMetadata)])
          \<and> error_count MalformedMetadata ?fin = 1
          \<and> \<not> overall_success ?fin"
    if len: "length src = 3" and one: "length (filter (malformed X) src) = 1"
      and cl: "\<forall>f \<in> set src. \<not> malformed X f \<longrightarrow> clean_file X cfg templates f"
      and di: "distinct (map (planned_path X) (filter (clean_file X cfg templates) src))"
  proof -
    have cl': "\<forall>f \<in> set src. clean_file X cfg templates f \<or> (\<exists>e. load_document X f = Inl e)"
      using cl by (auto simp: malformed_def)
    have lo: "\<forall>f \<in> set src. malformed X f \<or> (\<exists>d. load_document X f = Inr d)"
      using cl by (meson clean_file_loads)
    from clean_tree_build [OF be cl' di, of previous] only_malformed_errors [OF lo]
    have w: "length (map page_document (written ?fin)) = length (filter (\<lambda>f. \<not> malformed X f) src)"
      and el: "error_log ?fin = map (\<lambda>f. (fst f, MalformedMetadata)) (filter (malformed X) src)"
      by simp_all
    from one obtain f where f: "filter (malformed X) src = [f]"
      by (cases "filter (malformed X) src") auto
    then have "f \<in> set (filter (malformed X) src)"
      by simp
    then have fm: "f \<in> set src \<and> malformed X f"
      by simp
    from el f have el1: "error_log ?fin = [(fst f, MalformedMetadata)]"
      by simp
    from sum_length_filter_compl [of "malformed X" src] len one
    have "length (filter (\<lambda>f. \<not> malformed X f) src) = 2"
      by simp
    with w have "length (written ?fin) = 2"
      by simp
    with el1 fm show ?thesis
      by (auto simp: error_count_def overall_success_def)
  qed
  from a b c d e show ?thesis
    by blast
qed

theorem loader_errors_best_effort_witness:
  "mode (demo_config BestEffort) = BestEffort
   \<and> length demo_tree = 3
   \<and> length (filter (malformed demo_externals) demo_tree) = 1
   \<and> filter (malformed demo_externals) demo_tree = [(''b.md'', Source_text ''---'')]
   \<and> filter (clean_file demo_externals (demo_config BestEffort) [''post.html'']) demo_tree
       = [(''a.md'', Source_text ''alpha''), (''c.md'', Source_text ''gamma'')]
   \<and> distinct (map (planned_path demo_externals)
        (filter (clean_file demo_externals (demo_config BestEffort) [''post.html'']) demo_tree))
   \<and> phase (build demo_externals (demo_config BestEffort) [''post.html''] demo_tree Map.empty) = Done
   \<and> length (written (build demo_externals (demo_config BestEffort) [''post.html''] demo_tree Map.empty)) = 2
   \<and> length (error_log (build demo_externals (demo_config BestEffort) [''post.html''] demo_tree Map.empty)) = 1
   \<and> error_log (build demo_externals (demo_config BestEffort) [''post.html''] demo_tree Map.empty)
       = [(''b.md'', MalformedMetadata)]
   \<and> \<not> overall_success (build demo_externals (demo_config BestEffort) [''post.html''] demo_tree Map.empty)"
proof -
  let ?fin = "build demo_externals (demo_config BestEffort) [''post.html''] demo_tree Map.empty"
  have m: "mode (demo_config BestEffort) = BestEffort"
    by (simp add: demo_config_def)
  have l: "length demo_tree = 3"
    by (simp add: demo_tree_def)
  have o: "length (filter (malformed demo_externals) demo_tree) = 1"
    by (simp add: demo_tree_def malformed_def load_document_def demo_externals_def)
  have c: "\<forall>f \<in> set demo_tree. \<not> malformed demo_externals f \<longrightarrow>
         clean_file demo_externals (demo_config BestEffort) [''post.html''] f"
    by (simp add: demo_tree_def malformed_def load_document_def demo_externals_def
          clean_file_def resolve_template_def template_candidates_def demo_config_def)
  have d: "distinct (map (planned_path demo_externals)
        (filter (clean_file demo_externals (demo_config BestEffort) [''post.html'']) demo_tree))"
    by (simp add: demo_tree_def load_document_def demo_externals_def planned_path_def
          clean_file_def resolve_template_def template_candidates_def demo_config_def)
  from loader_errors_best_effort [OF m, of demo_externals "[''post.html'']" demo_tree Map.empty] l o c d
  have "phase ?fin = Done \<and> length (written ?fin) = 2 \<and> length (error_log ?fin) = 1
        \<and> \<not> overall_success ?fin"
    by blast
  then have "phase ?fin = Done" and "length (written ?fin) = 2"
    and "length (error_log ?fin) = 1" and "\<not> overall_success ?fin"
    by simp_all
  moreover have "filter (malformed demo_externals) demo_tree = [(''b.md'', Source_text ''---'')]"
    by (simp add: demo_tree_def malformed_def load_document_def demo_externals_def)
  moreover have "filter (clean_file demo_externals (demo_config BestEffort) [''post.html'']) demo_tree
       = [(''a.md'', Source_text ''alpha''), (''c.md'', Source_text ''gamma'')]"
    by (simp add: demo_tree_def load_document_def demo_externals_def
          clean_file_def resolve_template_def template_candidates_def demo_config_def)
  ultimately show ?thesis
    using m l o d demo_build(3) by (intro conjI) assumption+
qed

subsection \<open>Output paths\<close>




lemma build_site_of:
  "phase (build X cfg templates src previous) \<in> {Rendering, Writing, Done} \<longrightarrow>
   site_of (build X cfg templates src previous)
     = site_model cfg (documents (build X cfg templates src previous))"
  unfolding build_def
  by (rule run_invariant
        [where P = "\<lambda>s::build_state. phase s \<in> {Rendering, Writing, Done} \<longrightarrow>
           site_of s = site_model cfg (documents s)"])
     (simp_all add: step_site_of initial_state_def)









end
